theory Spec2Isabelle
  imports Complex_Main "HOL-Library.Word"
begin

section \<open>Data model (types.ts)\<close>

text \<open>
  The fields of the four analysis interfaces are JavaScript numbers, booleans and strings.
  A number is modelled as a rational: the statistics of the analyzers are quotients of
  small integers, and the thresholds of the classifier are decimal constants. The source
  computes in double precision. In the edge analyzer the rounding decides comparisons with
  the threshold: where the brightness means of two neighbouring pixels differ by exactly
  50, the rounded means can differ by slightly more (for the channel sums 400 and 250 the
  doubles differ by 50 + 1 / 2 ^ 46). There the means and their differences are rounded as
  the source rounds them, by \<open>double\<close> below. The quotients by the pixel count, and the
  decimal thresholds of the classifier with which they are compared, are both kept exact.
  The values NaN and Infinity, which the source can only produce by dividing by a pixel
  count of zero or by reading past the end of a buffer, are not rationals: a function of
  the model that would have to return one of them returns \<open>None\<close> instead.
\<close>

record ColorAnalysis =
  dominantColors :: "string list"
  darkRatio :: rat
  lightRatio :: rat
  brightness :: rat

record EdgeAnalysis =
  horizontalEdges :: rat
  verticalEdges :: rat
  normalizedEdges :: rat
  rectangularShapes :: rat

record PatternAnalysis =
  regularPatterns :: rat
  totalPixels :: rat

record ContentAnalysis =
  isUIScreen :: bool
  hasText :: bool
  isErrorScreen :: bool
  isDarkMode :: bool
  isLightMode :: bool
  contentType :: string

section \<open>Strings and numbers of the host language\<close>

text \<open>\<open>s.startsWith(t)\<close> and \<open>s.includes(t)\<close>: \<open>t\<close> occurs in \<open>s\<close> as a contiguous run.\<close>

fun startsWith :: "string \<Rightarrow> string \<Rightarrow> bool" where
  "startsWith s [] = True"
| "startsWith [] (c # t) = False"
| "startsWith (a # s) (c # t) = (a = c \<and> startsWith s t)"

fun str_includes :: "string \<Rightarrow> string \<Rightarrow> bool" where
  "str_includes [] t = startsWith [] t"
| "str_includes (a # s) t = (startsWith (a # s) t \<or> str_includes s t)"

text \<open>\<open>Math.round\<close> rounds to the nearest integer, a half towards plus infinity.\<close>

definition Math_round :: "rat \<Rightarrow> int" where
  "Math_round x = \<lfloor>x + 1 / 2\<rfloor>"

text \<open>The decimal text of an integer, as a template literal prints it.\<close>

definition digit :: "nat \<Rightarrow> char" where
  "digit d = char_of (48 + d)"

function toString_nat :: "nat \<Rightarrow> string" where
  "toString_nat n = (if n < 10 then [digit n] else toString_nat (n div 10) @ [digit (n mod 10)])"
  by pat_completeness auto
termination
  by (relation "measure (\<lambda>n. n)") auto

declare toString_nat.simps [simp del]

definition toString :: "int \<Rightarrow> string" where
  "toString i = (if i < 0 then CHR ''-'' # toString_nat (nat (- i)) else toString_nat (nat i))"

text \<open>
  Double-precision arithmetic delivers the exact result rounded to the nearest double, a tie
  going to the even significand. \<open>binade x\<close> is the exponent \<open>e\<close> with
  \<open>2 ^ e \<le> \<bar>x\<bar> < 2 ^ (e + 1)\<close>; a double has 53 significant bits, so around \<open>x\<close> the
  doubles are the multiples of \<open>2 ^ (e - 52)\<close>, and \<open>double x\<close> is the nearest of them.
  The values rounded below lie far inside the range of the normal doubles, where neither
  overflow nor underflow occurs.
\<close>

definition pow2 :: "int \<Rightarrow> rat" where
  "pow2 e = (if 0 \<le> e then 2 ^ nat e else 1 / 2 ^ nat (- e))"

function halvings :: "rat \<Rightarrow> int" where
  "halvings x = (if x < 2 then 0 else halvings (x / 2) + 1)"
  by pat_completeness auto
termination
proof (relation "measure (\<lambda>x. nat \<lfloor>x\<rfloor>)")
  show "wf (measure (\<lambda>x. nat \<lfloor>x\<rfloor>))" by (rule wf_measure)
next
  fix x :: rat
  assume "\<not> x < 2"
  then have x: "2 \<le> x" by simp
  have "x / 2 \<le> x - 1" using x by simp
  then have "\<lfloor>x / 2\<rfloor> \<le> \<lfloor>x - 1\<rfloor>" by (rule floor_mono)
  then have a: "\<lfloor>x / 2\<rfloor> < \<lfloor>x\<rfloor>" by simp
  have "\<lfloor>2 :: rat\<rfloor> \<le> \<lfloor>x\<rfloor>" using x by (rule floor_mono)
  then have b: "0 < \<lfloor>x\<rfloor>" by simp
  from a b have "nat \<lfloor>x / 2\<rfloor> < nat \<lfloor>x\<rfloor>" by (simp only: zless_nat_conj)
  then show "(x / 2, x) \<in> measure (\<lambda>x. nat \<lfloor>x\<rfloor>)" by (simp only: in_measure)
qed

declare halvings.simps [simp del]

function doublings :: "rat \<Rightarrow> int" where
  "doublings x = (if x \<le> 0 \<or> 1 \<le> x then 0 else doublings (2 * x) + 1)"
  by pat_completeness auto
termination
proof (relation "measure (\<lambda>x. nat \<lceil>1 / x\<rceil>)")
  show "wf (measure (\<lambda>x. nat \<lceil>1 / x\<rceil>))" by (rule wf_measure)
next
  fix x :: rat
  assume "\<not> (x \<le> 0 \<or> 1 \<le> x)"
  then have x0: "0 < x" and x1: "x < 1" by simp_all
  define y where "y = 1 / x"
  have y: "1 < y" unfolding y_def using x0 x1 by simp
  have half: "1 / (2 * x) = y / 2" unfolding y_def by simp
  have "1 < \<lceil>y\<rceil>" using y by (simp only: less_ceiling_iff of_int_1)
  then have c: "2 \<le> \<lceil>y\<rceil>" by simp
  have "y \<le> of_int \<lceil>y\<rceil>" by (rule le_of_int_ceiling)
  then have "y / 2 \<le> of_int \<lceil>y\<rceil> / 2" by simp
  also have "of_int \<lceil>y\<rceil> / (2 :: rat) \<le> of_int \<lceil>y\<rceil> - 1"
  proof -
    have "(2 :: rat) \<le> of_int \<lceil>y\<rceil>"
      using c by (simp only: of_int_le_iff [symmetric, where 'a = rat] of_int_numeral)
    then show ?thesis by simp
  qed
  also have "of_int \<lceil>y\<rceil> - (1 :: rat) = of_int (\<lceil>y\<rceil> - 1)" by simp
  finally have "\<lceil>y / 2\<rceil> \<le> \<lceil>y\<rceil> - 1" by (simp only: ceiling_le_iff)
  then have a: "\<lceil>y / 2\<rceil> < \<lceil>y\<rceil>" by simp
  have b: "0 < \<lceil>y\<rceil>" using c by simp
  from a b have "nat \<lceil>1 / (2 * x)\<rceil> < nat \<lceil>1 / x\<rceil>"
    unfolding half unfolding y_def [symmetric] by (simp only: zless_nat_conj)
  then show "(2 * x, x) \<in> measure (\<lambda>x. nat \<lceil>1 / x\<rceil>)" by (simp only: in_measure)
qed

declare doublings.simps [simp del]

definition binade :: "rat \<Rightarrow> int" where
  "binade x = (if 1 \<le> \<bar>x\<bar> then halvings \<bar>x\<bar> else - doublings \<bar>x\<bar>)"

definition roundToEven :: "rat \<Rightarrow> int" where
  "roundToEven q =
     (if q - of_int \<lfloor>q\<rfloor> < 1 / 2 then \<lfloor>q\<rfloor>
      else if q - of_int \<lfloor>q\<rfloor> > 1 / 2 then \<lfloor>q\<rfloor> + 1
      else if even \<lfloor>q\<rfloor> then \<lfloor>q\<rfloor> else \<lfloor>q\<rfloor> + 1)"

definition double :: "rat \<Rightarrow> rat" where
  "double x =
     (if x = 0 then 0
      else of_int (roundToEven (x / pow2 (binade x - 52))) * pow2 (binade x - 52))"

section \<open>The colour analyzer (analyzers.ts, analyzeColors)\<close>

text \<open>
  \<open>data\<close> is a \<open>Uint8ClampedArray\<close>: a flat list of bytes, four to a pixel. The object
  \<open>colorCounts\<close> is an association list in insertion order, which is the order in which
  \<open>Object.entries\<close> lists keys of this shape.
\<close>

definition quantizedColor :: "8 word \<Rightarrow> 8 word \<Rightarrow> 8 word \<Rightarrow> string" where
  "quantizedColor r g b =
     ''rgb('' @ toString (Math_round (of_nat (unat r) / 32) * 32) @ '','' @
     toString (Math_round (of_nat (unat g) / 32) * 32) @ '','' @
     toString (Math_round (of_nat (unat b) / 32) * 32) @ '')''"

fun increment :: "string \<Rightarrow> (string \<times> nat) list \<Rightarrow> (string \<times> nat) list" where
  "increment k [] = [(k, 0 + 1)]"
| "increment k ((k', n) # rest) =
     (if k = k' then (k', n + 1) # rest else (k', n) # increment k rest)"

record color_scan =
  colorCounts :: "(string \<times> nat) list"
  brightnessSum :: rat
  darkPixels :: int
  lightPixels :: int

definition pixelBrightness :: "8 word \<Rightarrow> 8 word \<Rightarrow> 8 word \<Rightarrow> rat" where
  "pixelBrightness r g b = (of_nat (unat r) + of_nat (unat g) + of_nat (unat b)) / 3"

definition countPixel :: "8 word \<Rightarrow> 8 word \<Rightarrow> 8 word \<Rightarrow> color_scan \<Rightarrow> color_scan" where
  "countPixel r g b s =
     \<lparr>colorCounts = increment (quantizedColor r g b) (colorCounts s),
      brightnessSum = brightnessSum s + pixelBrightness r g b,
      darkPixels = (if pixelBrightness r g b < 85 then darkPixels s + 1 else darkPixels s),
      lightPixels = (if pixelBrightness r g b > 170 then lightPixels s + 1 else lightPixels s)\<rparr>"

text \<open>
  The loop \<open>for (i = 0; i < data.length; i += 4)\<close>. A buffer that ends with three bytes
  has an undefined alpha there, \<open>undefined < 128\<close> is false and the pixel is counted.
  A buffer that ends with one or two bytes makes the brightness NaN: \<open>None\<close>.
\<close>

fun scanColors :: "8 word list \<Rightarrow> color_scan \<Rightarrow> color_scan option" where
  "scanColors [] s = Some s"
| "scanColors (r # g # b # a # rest) s =
     scanColors rest (if unat a < 128 then s else countPixel r g b s)"
| "scanColors [r, g, b] s = Some (countPixel r g b s)"
| "scanColors _ s = None"

definition initialScan :: color_scan where
  "initialScan = \<lparr>colorCounts = [], brightnessSum = 0, darkPixels = 0, lightPixels = 0\<rparr>"

text \<open>
  \<open>Array.prototype.sort\<close> is stable, and the comparator \<open>b - a\<close> on the counts orders
  by descending count: a stable sort on the negated count.
\<close>

definition sortEntries :: "(string \<times> nat) list \<Rightarrow> (string \<times> nat) list" where
  "sortEntries entries = sort_key (\<lambda>(color, n). - int n) entries"

definition analyzeColors :: "8 word list \<Rightarrow> nat \<Rightarrow> ColorAnalysis option" where
  "analyzeColors data total_pixels =
     (case scanColors data initialScan of
        None \<Rightarrow> None
      | Some s \<Rightarrow>
          if total_pixels = 0 then None
          else Some \<lparr>dominantColors = map fst (take 3 (sortEntries (colorCounts s))),
                     darkRatio = of_int (darkPixels s) / of_nat total_pixels,
                     lightRatio = of_int (lightPixels s) / of_nat total_pixels,
                     brightness = brightnessSum s / of_nat total_pixels / 255\<rparr>)"

section \<open>The content classifier (analyzers.ts, analyzeContent)\<close>

definition errorColor :: "string \<Rightarrow> bool" where
  "errorColor c = (str_includes c ''rgb(255,0,0)'' \<or> str_includes c ''rgb(255,192,192)'')"

text \<open>
  The flags are computed from the three analyses; the label starts as \<open>Unknown\<close> and is
  assigned on every branch of the decision.
\<close>

definition analyzeContent :: "ColorAnalysis \<Rightarrow> EdgeAnalysis \<Rightarrow> PatternAnalysis \<Rightarrow> ContentAnalysis" where
  "analyzeContent colorAnalysis edgeAnalysis patternAnalysis =
     (let isUIScreen' =
            (rectangularShapes edgeAnalysis > totalPixels patternAnalysis * (1 / 100) \<and>
             regularPatterns patternAnalysis > totalPixels patternAnalysis * (1 / 10));
          hasText' =
            (horizontalEdges edgeAnalysis > verticalEdges edgeAnalysis * (3 / 2) \<and>
             normalizedEdges edgeAnalysis > 1 / 10);
          isErrorScreen' =
            (darkRatio colorAnalysis < 2 / 10 \<and> lightRatio colorAnalysis > 6 / 10 \<and>
             list_ex errorColor (dominantColors colorAnalysis));
          isDarkMode' = (darkRatio colorAnalysis > 7 / 10);
          isLightMode' = (lightRatio colorAnalysis > 7 / 10);
          contentType0 = ''Unknown'';
          contentType' =
            (if isUIScreen' then
               (let contentType1 = ''User Interface'' in
                if isErrorScreen' then contentType1 @ '' (Error Screen)''
                else if isDarkMode' then contentType1 @ '' (Dark Theme)''
                else if isLightMode' then contentType1 @ '' (Light Theme)''
                else contentType1)
             else if hasText' \<and> normalizedEdges edgeAnalysis > 2 / 10
               then ''Document or Text Content''
             else if normalizedEdges edgeAnalysis < 5 / 100 then ''Simple Graphic or Icon''
             else ''Complex Image or Photo'')
      in \<lparr>isUIScreen = isUIScreen', hasText = hasText', isErrorScreen = isErrorScreen',
          isDarkMode = isDarkMode', isLightMode = isLightMode', contentType = contentType'\<rparr>)"

section \<open>The canvas, and the edge analyzer (analyzers.ts, analyzeEdges)\<close>

text \<open>
  A rendering context is read only through \<open>getImageData\<close>. It is modelled by the pixel
  it holds at each coordinate (outside the canvas a context holds transparent black);
  \<open>getImageData(sx, sy, sw, sh).data\<close> lists the pixels of the rectangle row by row, four
  bytes each. The scans start at 1 (at 3 in the pattern analyzer), so the coordinates
  \<open>x - 1\<close> and \<open>x - 3\<close> that they read are never negative.
\<close>

type_synonym pixel = "8 word \<times> 8 word \<times> 8 word \<times> 8 word"

type_synonym canvas = "nat \<Rightarrow> nat \<Rightarrow> pixel"

definition pixelBytes :: "pixel \<Rightarrow> 8 word list" where
  "pixelBytes px = (case px of (r, g, b, a) \<Rightarrow> [r, g, b, a])"

definition getImageData :: "canvas \<Rightarrow> nat \<Rightarrow> nat \<Rightarrow> nat \<Rightarrow> nat \<Rightarrow> 8 word list" where
  "getImageData ctx sx sy sw sh =
     concat (map (\<lambda>y. concat (map (\<lambda>x. pixelBytes (ctx x y)) [sx..<sx + sw])) [sy..<sy + sh])"

record edge_scan =
  h_edges :: int
  v_edges :: int
  rect_shapes :: int

text \<open>
  \<open>(d[0] + d[1] + d[2]) / 3\<close> on the data of one pixel: the sum of three bytes is exact,
  the quotient is rounded. In \<open>Math.abs(currentBrightness - leftBrightness)\<close> the
  difference of the two rounded means is rounded again, and the absolute value is exact.
\<close>

definition meanOfChannels :: "8 word list \<Rightarrow> rat" where
  "meanOfChannels d =
     double ((of_nat (unat (d ! 0)) + of_nat (unat (d ! 1)) + of_nat (unat (d ! 2))) / 3)"

definition horizontalDiff :: "canvas \<Rightarrow> nat \<Rightarrow> nat \<Rightarrow> rat" where
  "horizontalDiff ctx x y =
     \<bar>double (meanOfChannels (getImageData ctx x y 1 1) -
             meanOfChannels (getImageData ctx (x - 1) y 1 1))\<bar>"

definition verticalDiff :: "canvas \<Rightarrow> nat \<Rightarrow> nat \<Rightarrow> rat" where
  "verticalDiff ctx x y =
     \<bar>double (meanOfChannels (getImageData ctx x y 1 1) -
             meanOfChannels (getImageData ctx x (y - 1) 1 1))\<bar>"

definition edgePixel :: "canvas \<Rightarrow> nat \<Rightarrow> nat \<Rightarrow> edge_scan \<Rightarrow> edge_scan" where
  "edgePixel ctx x y s =
     \<lparr>h_edges = (if horizontalDiff ctx x y > 50 then h_edges s + 1 else h_edges s),
      v_edges = (if verticalDiff ctx x y > 50 then v_edges s + 1 else v_edges s),
      rect_shapes = (if horizontalDiff ctx x y > 50 \<and> verticalDiff ctx x y > 50
                     then rect_shapes s + 1 else rect_shapes s)\<rparr>"

text \<open>The inner loop \<open>for (x = 1; x < width; x++)\<close> and the outer one over \<open>y\<close>.\<close>

function edgesRow :: "canvas \<Rightarrow> nat \<Rightarrow> nat \<Rightarrow> nat \<Rightarrow> edge_scan \<Rightarrow> edge_scan" where
  "edgesRow ctx width y x s =
     (if x < width then edgesRow ctx width y (x + 1) (edgePixel ctx x y s) else s)"
  by pat_completeness auto
termination
  by (relation "measure (\<lambda>(ctx, width, y, x, s). width - x)") auto

declare edgesRow.simps [simp del]

function edgesRows :: "canvas \<Rightarrow> nat \<Rightarrow> nat \<Rightarrow> nat \<Rightarrow> edge_scan \<Rightarrow> edge_scan" where
  "edgesRows ctx width height y s =
     (if y < height then edgesRows ctx width height (y + 1) (edgesRow ctx width y 1 s) else s)"
  by pat_completeness auto
termination
  by (relation "measure (\<lambda>(ctx, width, height, y, s). height - y)") auto

declare edgesRows.simps [simp del]

definition edgeScan :: "canvas \<Rightarrow> nat \<Rightarrow> nat \<Rightarrow> edge_scan" where
  "edgeScan ctx width height =
     edgesRows ctx width height 1 \<lparr>h_edges = 0, v_edges = 0, rect_shapes = 0\<rparr>"

text \<open>An image without pixels makes \<open>normalizedEdges\<close> the quotient 0 / 0, NaN: \<open>None\<close>.\<close>

definition analyzeEdges :: "canvas \<Rightarrow> nat \<Rightarrow> nat \<Rightarrow> EdgeAnalysis option" where
  "analyzeEdges ctx width height =
     (let s = edgeScan ctx width height; total_pixels = width * height
      in if total_pixels = 0 then None
         else Some \<lparr>horizontalEdges = of_int (h_edges s),
                    verticalEdges = of_int (v_edges s),
                    normalizedEdges = (of_int (h_edges s) + of_int (v_edges s)) / of_nat total_pixels,
                    rectangularShapes = of_int (rect_shapes s)\<rparr>)"

section \<open>The pattern analyzer (analyzers.ts, analyzePatterns)\<close>

definition absDiff :: "8 word \<Rightarrow> 8 word \<Rightarrow> int" where
  "absDiff a c = \<bar>int (unat a) - int (unat c)\<bar>"

text \<open>
  The loop over the bytes of the neighbourhood, leaving at the first channel that differs
  by more than 20; its value is \<open>isRegular\<close>. Data that ends inside a pixel reads
  undefined channels there, and a comparison with NaN is false.
\<close>

fun isRegular :: "8 word list \<Rightarrow> 8 word list \<Rightarrow> bool" where
  "isRegular [] current = True"
| "isRegular (pr # pg # pb # pa # rest) current =
     (if absDiff pr (current ! 0) > 20 \<or> absDiff pg (current ! 1) > 20 \<or>
         absDiff pb (current ! 2) > 20
      then False else isRegular rest current)"
| "isRegular [pr, pg, pb] current =
     (\<not> (absDiff pr (current ! 0) > 20 \<or> absDiff pg (current ! 1) > 20 \<or>
         absDiff pb (current ! 2) > 20))"
| "isRegular [pr, pg] current =
     (\<not> (absDiff pr (current ! 0) > 20 \<or> absDiff pg (current ! 1) > 20))"
| "isRegular [pr] current = (\<not> absDiff pr (current ! 0) > 20)"

definition patternPixel :: "canvas \<Rightarrow> nat \<Rightarrow> nat \<Rightarrow> int \<Rightarrow> int" where
  "patternPixel ctx x y n =
     (let pattern = getImageData ctx (x - 3) (y - 3) 3 3;
          current = getImageData ctx x y 1 1
      in if isRegular pattern current then n + 1 else n)"

function patternsRow :: "canvas \<Rightarrow> nat \<Rightarrow> nat \<Rightarrow> nat \<Rightarrow> int \<Rightarrow> int" where
  "patternsRow ctx width y x n =
     (if x < width then patternsRow ctx width y (x + 1) (patternPixel ctx x y n) else n)"
  by pat_completeness auto
termination
  by (relation "measure (\<lambda>(ctx, width, y, x, n). width - x)") auto

declare patternsRow.simps [simp del]

function patternsRows :: "canvas \<Rightarrow> nat \<Rightarrow> nat \<Rightarrow> nat \<Rightarrow> int \<Rightarrow> int" where
  "patternsRows ctx width height y n =
     (if y < height then patternsRows ctx width height (y + 1) (patternsRow ctx width y 3 n) else n)"
  by pat_completeness auto
termination
  by (relation "measure (\<lambda>(ctx, width, height, y, n). height - y)") auto

declare patternsRows.simps [simp del]

definition analyzePatterns :: "canvas \<Rightarrow> nat \<Rightarrow> nat \<Rightarrow> PatternAnalysis" where
  "analyzePatterns ctx width height =
     \<lparr>regularPatterns = of_int (patternsRows ctx width height 3 0),
      totalPixels = of_nat (width * height)\<rparr>"

section \<open>The pipeline orchestrator (processImage, analyzeImageLocally)\<close>

text \<open>
  A thrown value is an \<open>Error\<close> with its message, or any other value. The browser is
  the environment of the orchestrator: what the file reader delivers for a file (a string
  result, a result that is not a string, or an error event), and what loading the data URL
  into an image delivers (an error event, or a load event whose handler either throws or
  produces the report). The handler builds the report with the analyzers above; the
  orchestrator only passes it on, so the report is a string here. A file carries its declared
  MIME type and its declared size in bytes. The orchestrator returns the effects it has
  started, in order, together with its outcome.
\<close>

datatype thrown = Error string | Other

record File =
  file_type :: string
  file_size :: nat

datatype reader_result = ResultString string | ResultOther | ReaderError

datatype load_result = LoadError | Loaded "thrown + string"

record browser =
  readAsDataURL :: "File \<Rightarrow> reader_result"
  loadImage :: "string \<Rightarrow> load_result"

datatype effect = ReadFile | DecodeImage

text \<open>\<open>s.split(c)\<close>, \<open>parts.join(sep)\<close> and \<open>parts[1]\<close> (a missing element joins as the empty string).\<close>

fun split_on :: "char \<Rightarrow> string \<Rightarrow> string list" where
  "split_on c [] = [[]]"
| "split_on c (x # xs) =
     (if x = c then [] # split_on c xs
      else (case split_on c xs of [] \<Rightarrow> [[x]] | w # ws \<Rightarrow> (x # w) # ws))"

fun join :: "string \<Rightarrow> string list \<Rightarrow> string" where
  "join sep [] = []"
| "join sep [x] = x"
| "join sep (x # y # ys) = x @ sep @ join sep (y # ys)"

definition element1 :: "string list \<Rightarrow> string" where
  "element1 parts = (case parts of _ # p # _ \<Rightarrow> p | _ \<Rightarrow> [])"

definition SUPPORTED_FORMATS :: "string list" where
  "SUPPORTED_FORMATS = [''image/jpeg'', ''image/png'', ''image/webp'', ''image/gif'']"

definition MAX_IMAGE_SIZE :: nat where
  "MAX_IMAGE_SIZE = 10 * 1024 * 1024"

text \<open>\<open>error instanceof Error ? error.message : 'Unknown error'\<close>\<close>

definition messageOf :: "thrown \<Rightarrow> string" where
  "messageOf e = (case e of Error m \<Rightarrow> m | Other \<Rightarrow> ''Unknown error'')"

definition analyzeImageLocally :: "browser \<Rightarrow> string \<Rightarrow> thrown + string" where
  "analyzeImageLocally env imageData =
     (case loadImage env imageData of
        LoadError \<Rightarrow> Inl (Error ''Failed to load image'')
      | Loaded (Inl e) \<Rightarrow> Inl (Error (''Failed to analyze image: '' @ messageOf e))
      | Loaded (Inr report) \<Rightarrow> Inr report)"

definition unsupportedFormatMessage :: string where
  "unsupportedFormatMessage =
     ''Unsupported image format. Supported formats: '' @
     join '', '' (map (\<lambda>f. element1 (split_on CHR ''/'' f)) SUPPORTED_FORMATS)"

definition sizeExceededMessage :: string where
  "sizeExceededMessage =
     ''Image size exceeds maximum limit of '' @
     toString (int (MAX_IMAGE_SIZE div (1024 * 1024))) @ ''MB''"

text \<open>The body of the \<open>try\<close> block of \<open>processImage\<close>: \<open>Inl\<close> is a throw or a rejection.\<close>

definition processImage_try :: "File option \<Rightarrow> browser \<Rightarrow> effect list \<times> (thrown + string)" where
  "processImage_try imageFile env =
     (case imageFile of
        None \<Rightarrow> ([], Inl (Error ''No image provided''))
      | Some f \<Rightarrow>
          if file_type f \<notin> set SUPPORTED_FORMATS then ([], Inl (Error unsupportedFormatMessage))
          else if file_size f > MAX_IMAGE_SIZE then ([], Inl (Error sizeExceededMessage))
          else
            (case readAsDataURL env f of
               ReaderError \<Rightarrow> ([ReadFile], Inl (Error ''Error reading image file''))
             | ResultOther \<Rightarrow> ([ReadFile], Inl (Error ''Failed to read image file''))
             | ResultString base64Image \<Rightarrow>
                 ([ReadFile, DecodeImage], analyzeImageLocally env base64Image)))"

definition failureText :: "string \<Rightarrow> string" where
  "failureText errorMessage =
     join [CHR 0x0A]
       [''Image Analysis Error:'',
        ''- Status: Unable to process image'',
        ''- Reason: '' @ errorMessage,
        ''- Recommendation: Please ensure the image is valid and try again'',
        ''- Note: Continuing with text-only analysis'',
        ''- Supported Formats: JPEG, PNG, WebP, GIF'',
        ''- Maximum Size: 10MB'']"

text \<open>\<open>processImage\<close>: the \<open>try\<close> block and its \<open>catch\<close> clause.\<close>

definition processImage :: "File option \<Rightarrow> browser \<Rightarrow> effect list \<times> (thrown + string)" where
  "processImage imageFile env =
     (case processImage_try imageFile env of
        (effects, Inr report) \<Rightarrow> (effects, Inr report)
      | (effects, Inl error) \<Rightarrow> (effects, Inr (failureText (messageOf error))))"

section \<open>Notions of the specification, and example images\<close>

text \<open>
  The brightness of the pixel at a coordinate: the mean of its red, green and blue, and
  that mean as double-precision arithmetic delivers it.
\<close>

definition spec_brightness :: "canvas \<Rightarrow> nat \<Rightarrow> nat \<Rightarrow> rat" where
  "spec_brightness ctx x y =
     (case ctx x y of (r, g, b, a) \<Rightarrow> (of_nat (unat r) + of_nat (unat g) + of_nat (unat b)) / 3)"

definition double_brightness :: "canvas \<Rightarrow> nat \<Rightarrow> nat \<Rightarrow> rat" where
  "double_brightness ctx x y = double (spec_brightness ctx x y)"

text \<open>
  The pixels that the colour analyzer counts: those of a buffer of whole pixels whose alpha
  is at least 128, in the order of the buffer.
\<close>

fun opaquePixels :: "8 word list \<Rightarrow> (8 word \<times> 8 word \<times> 8 word) list" where
  "opaquePixels (r # g # b # a # rest) =
     (if unat a < 128 then opaquePixels rest else (r, g, b) # opaquePixels rest)"
| "opaquePixels _ = []"

definition countPixels :: "(8 word \<times> 8 word \<times> 8 word) list \<Rightarrow> color_scan \<Rightarrow> color_scan" where
  "countPixels ps s = fold (\<lambda>(r, g, b). countPixel r g b) ps s"

text \<open>A counted pixel is dark below a brightness of 85 and light above 170.\<close>

definition isDark :: "8 word \<times> 8 word \<times> 8 word \<Rightarrow> bool" where
  "isDark px = (case px of (r, g, b) \<Rightarrow> pixelBrightness r g b < 85)"

definition isLight :: "8 word \<times> 8 word \<times> 8 word \<Rightarrow> bool" where
  "isLight px = (case px of (r, g, b) \<Rightarrow> pixelBrightness r g b > 170)"

text \<open>
  The colour keys of the counted pixels in buffer order, the position at which a key is
  first seen, and the ranking of the dominant colours: by descending count, and among equal
  counts by first appearance.
\<close>

definition colorKeys :: "8 word list \<Rightarrow> string list" where
  "colorKeys data = map (\<lambda>(r, g, b). quantizedColor r g b) (opaquePixels data)"

definition firstIndex :: "'a list \<Rightarrow> 'a \<Rightarrow> nat" where
  "firstIndex xs x = length (takeWhile (\<lambda>y. y \<noteq> x) xs)"

definition ranksBefore :: "'a list \<Rightarrow> 'a \<Rightarrow> 'a \<Rightarrow> bool" where
  "ranksBefore ks a b =
     (count_list ks a > count_list ks b \<or>
      (count_list ks a = count_list ks b \<and> firstIndex ks a < firstIndex ks b))"

text \<open>The invariant of the edge scan: every corner is an edge in both directions.\<close>

definition rect_le_edges :: "edge_scan \<Rightarrow> bool" where
  "rect_le_edges s = (rect_shapes s \<le> h_edges s \<and> rect_shapes s \<le> v_edges s)"

text \<open>
  The pixel at a coordinate is regular when the 3 by 3 block whose corner lies three pixels
  to the left and three pixels up is within 20 of it on every colour channel.
\<close>

definition regularAt :: "canvas \<Rightarrow> nat \<Rightarrow> nat \<Rightarrow> bool" where
  "regularAt ctx x y =
     isRegular (getImageData ctx (x - 3) (y - 3) 3 3) (getImageData ctx x y 1 1)"

text \<open>An all-black opaque image: every pixel inside the image is (0, 0, 0, 255).\<close>

definition blackImage :: "canvas \<Rightarrow> nat \<Rightarrow> nat \<Rightarrow> bool" where
  "blackImage ctx width height = (\<forall>x<width. \<forall>y<height. ctx x y = (0, 0, 0, 255))"

definition black :: canvas where
  "black x y = (0, 0, 0, 255)"

text \<open>A black image with one white pixel at (1, 1).\<close>

definition corner :: canvas where
  "corner x y = (if x = 1 \<and> y = 1 then (255, 255, 255, 255) else (0, 0, 0, 255))"

text \<open>
  An image whose pixel at (1, 1) has the channel sum 400 and whose other pixels have the
  channel sum 250: the means of neighbours differ by exactly 50.
\<close>

definition threshold_pair :: canvas where
  "threshold_pair x y = (if x = 1 \<and> y = 1 then (134, 133, 133, 255) else (84, 83, 83, 255))"

text \<open>
  Example files and browsers: an unsupported type, a supported file over the size limit, a
  small supported file; a browser in which reading a file and loading an image both fail,
  and one whose file reader delivers the given result (no string when there is none) and
  whose image load has the given outcome.
\<close>

definition bmpFile :: File where
  "bmpFile = \<lparr>file_type = ''image/bmp'', file_size = 100\<rparr>"

definition largeFile :: File where
  "largeFile = \<lparr>file_type = ''image/png'', file_size = 10485761\<rparr>"

definition pngFile :: File where
  "pngFile = \<lparr>file_type = ''image/png'', file_size = 100\<rparr>"

definition failingBrowser :: browser where
  "failingBrowser = \<lparr>readAsDataURL = (\<lambda>f. ReaderError), loadImage = (\<lambda>d. LoadError)\<rparr>"

definition readingBrowser :: "string option \<Rightarrow> load_result \<Rightarrow> browser" where
  "readingBrowser result outcome =
     \<lparr>readAsDataURL = (\<lambda>f. case result of None \<Rightarrow> ResultOther | Some d \<Rightarrow> ResultString d),
      loadImage = (\<lambda>d. outcome)\<rparr>"

section \<open>Properties of the content classifier\<close>

lemma isUIScreen_analyzeContent:
  "isUIScreen (analyzeContent c e p) =
     (rectangularShapes e > totalPixels p * (1 / 100) \<and> regularPatterns p > totalPixels p * (1 / 10))"
  by (simp add: analyzeContent_def Let_def)

lemma hasText_analyzeContent:
  "hasText (analyzeContent c e p) =
     (horizontalEdges e > verticalEdges e * (3 / 2) \<and> normalizedEdges e > 1 / 10)"
  by (simp add: analyzeContent_def Let_def)

lemma isErrorScreen_analyzeContent:
  "isErrorScreen (analyzeContent c e p) =
     (darkRatio c < 2 / 10 \<and> lightRatio c > 6 / 10 \<and> list_ex errorColor (dominantColors c))"
  by (simp add: analyzeContent_def Let_def)

lemma isDarkMode_analyzeContent: "isDarkMode (analyzeContent c e p) = (darkRatio c > 7 / 10)"
  by (simp add: analyzeContent_def Let_def)

lemma isLightMode_analyzeContent: "isLightMode (analyzeContent c e p) = (lightRatio c > 7 / 10)"
  by (simp add: analyzeContent_def Let_def)

text \<open>
  Claim C2. The content type is chosen by the first matching rule: a user interface (with
  the suffix of an error screen before that of a dark theme before that of a light theme),
  then a document, then a simple graphic, and a complex image otherwise. A user interface
  that is an error screen is labelled as an error screen and carries no theme suffix.
\<close>

theorem C2_contentType_first_match:
  "contentType (analyzeContent c e p) =
     (if isUIScreen (analyzeContent c e p) then
        ''User Interface'' @
        (if isErrorScreen (analyzeContent c e p) then '' (Error Screen)''
         else if isDarkMode (analyzeContent c e p) then '' (Dark Theme)''
         else if isLightMode (analyzeContent c e p) then '' (Light Theme)''
         else [])
      else if hasText (analyzeContent c e p) \<and> normalizedEdges e > 2 / 10
        then ''Document or Text Content''
      else if normalizedEdges e < 5 / 100 then ''Simple Graphic or Icon''
      else ''Complex Image or Photo'') \<and>
   (isUIScreen (analyzeContent c e p) \<and> isErrorScreen (analyzeContent c e p) \<longrightarrow>
      contentType (analyzeContent c e p) = ''User Interface (Error Screen)'' \<and>
      str_includes (contentType (analyzeContent c e p)) ''(Error Screen)'' \<and>
      \<not> str_includes (contentType (analyzeContent c e p)) ''(Dark Theme)'' \<and>
      \<not> str_includes (contentType (analyzeContent c e p)) ''(Light Theme)'')"
  by (simp add: analyzeContent_def Let_def)

theorem C2_contentType_first_match_witness:
  "isUIScreen (analyzeContent
      \<lparr>dominantColors = [''rgb(255,0,0)''], darkRatio = 0, lightRatio = 1, brightness = 1\<rparr>
      \<lparr>horizontalEdges = 0, verticalEdges = 0, normalizedEdges = 0, rectangularShapes = 10\<rparr>
      \<lparr>regularPatterns = 50, totalPixels = 100\<rparr>) \<and>
   isErrorScreen (analyzeContent
      \<lparr>dominantColors = [''rgb(255,0,0)''], darkRatio = 0, lightRatio = 1, brightness = 1\<rparr>
      \<lparr>horizontalEdges = 0, verticalEdges = 0, normalizedEdges = 0, rectangularShapes = 10\<rparr>
      \<lparr>regularPatterns = 50, totalPixels = 100\<rparr>) \<and>
   contentType (analyzeContent
      \<lparr>dominantColors = [''rgb(255,0,0)''], darkRatio = 0, lightRatio = 1, brightness = 1\<rparr>
      \<lparr>horizontalEdges = 0, verticalEdges = 0, normalizedEdges = 0, rectangularShapes = 10\<rparr>
      \<lparr>regularPatterns = 50, totalPixels = 100\<rparr>) = ''User Interface (Error Screen)''"
  using C2_contentType_first_match
    [of "\<lparr>dominantColors = [''rgb(255,0,0)''], darkRatio = 0, lightRatio = 1, brightness = 1\<rparr>"
        "\<lparr>horizontalEdges = 0, verticalEdges = 0, normalizedEdges = 0, rectangularShapes = 10\<rparr>"
        "\<lparr>regularPatterns = 50, totalPixels = 100\<rparr>"]
  by (simp add: isUIScreen_analyzeContent isErrorScreen_analyzeContent errorColor_def)

section \<open>Properties of the edge analyzer\<close>

lemma edgesRow_fold: "edgesRow ctx width y x s = fold (\<lambda>x. edgePixel ctx x y) [x..<width] s"
proof (induction ctx width y x s rule: edgesRow.induct)
  case (1 ctx width y x s)
  show ?case
  proof (cases "x < width")
    case True
    then show ?thesis
      using "1.IH" by (subst edgesRow.simps) (simp add: upt_conv_Cons)
  next
    case False
    then show ?thesis by (subst edgesRow.simps) simp
  qed
qed

lemma edgesRows_fold:
  "edgesRows ctx width height y s = fold (\<lambda>y. edgesRow ctx width y 1) [y..<height] s"
proof (induction ctx width height y s rule: edgesRows.induct)
  case (1 ctx width height y s)
  show ?case
  proof (cases "y < height")
    case True
    then show ?thesis
      using "1.IH" by (subst edgesRows.simps) (simp add: upt_conv_Cons)
  next
    case False
    then show ?thesis by (subst edgesRows.simps) simp
  qed
qed

lemma fold_count:
  assumes "\<And>x s. f (step x s) = (if P x then f s + 1 else f s)"
  shows "f (fold step xs s) = f s + int (length (filter P xs))"
  using assms by (induction xs arbitrary: s) auto

lemma fold_fold_count:
  assumes "\<And>x y s. f (step x y s) = (if P x y then f s + 1 else f s)"
  shows "f (fold (\<lambda>y. fold (\<lambda>x. step x y) xs) ys s) =
         f s + (\<Sum>y\<leftarrow>ys. int (length (filter (\<lambda>x. P x y) xs)))"
proof (induction ys arbitrary: s)
  case Nil
  then show ?case by simp
next
  case (Cons y ys)
  have "f (fold (\<lambda>x. step x y) xs s) = f s + int (length (filter (\<lambda>x. P x y) xs))"
    by (rule fold_count) (rule assms)
  then show ?case using Cons.IH by simp
qed

lemma grid_count:
  "(\<Sum>y\<leftarrow>[a..<h]. int (length (filter (\<lambda>x. P x y) [a..<w]))) =
   int (card {(x, y). a \<le> x \<and> x < w \<and> a \<le> y \<and> y < h \<and> P x y})"
proof -
  let ?B = "\<lambda>y. {x. a \<le> x \<and> x < w \<and> P x y}"
  have row: "length (filter (\<lambda>x. P x y) [a..<w]) = card (?B y)" for y
  proof -
    have "{x. P x y} \<inter> set [a..<w] = ?B y" by auto
    then show ?thesis using distinct_length_filter [of "[a..<w]" "\<lambda>x. P x y"] by simp
  qed
  have "(\<Sum>y\<leftarrow>[a..<h]. int (length (filter (\<lambda>x. P x y) [a..<w]))) = (\<Sum>y\<in>{a..<h}. int (card (?B y)))"
    by (simp add: row sum_list_distinct_conv_sum_set)
  also have "\<dots> = int (card (SIGMA y:{a..<h}. ?B y))"
    by (subst card_SigmaI) auto
  also have "card (SIGMA y:{a..<h}. ?B y) = card ((\<lambda>(y, x). (x, y)) ` (SIGMA y:{a..<h}. ?B y))"
    by (rule card_image [symmetric]) (auto simp: inj_on_def)
  also have "(\<lambda>(y, x). (x, y)) ` (SIGMA y:{a..<h}. ?B y) = {(x, y). a \<le> x \<and> x < w \<and> a \<le> y \<and> y < h \<and> P x y}"
    by (auto simp: image_iff)
  finally show ?thesis .
qed

lemma getImageData_one: "getImageData ctx x y 1 1 = pixelBytes (ctx x y)"
  by (simp add: getImageData_def)

lemma meanOfChannels_one: "meanOfChannels (getImageData ctx x y 1 1) = double_brightness ctx x y"
  unfolding getImageData_one
  by (simp add: meanOfChannels_def double_brightness_def spec_brightness_def pixelBytes_def
      split: prod.splits)

lemma edgeScan_fold:
  "edgeScan ctx width height =
     fold (\<lambda>y. fold (\<lambda>x. edgePixel ctx x y) [1..<width]) [1..<height]
       \<lparr>h_edges = 0, v_edges = 0, rect_shapes = 0\<rparr>"
  unfolding edgeScan_def edgesRows_fold edgesRow_fold ..

lemma h_edges_edgeScan:
  "h_edges (edgeScan ctx width height) =
     int (card {(x, y). 1 \<le> x \<and> x < width \<and> 1 \<le> y \<and> y < height \<and> horizontalDiff ctx x y > 50})"
proof -
  have "h_edges (edgeScan ctx width height) =
      (\<Sum>y\<leftarrow>[1..<height]. int (length (filter (\<lambda>x. horizontalDiff ctx x y > 50) [1..<width])))"
    unfolding edgeScan_fold
    by (subst fold_fold_count [where f = h_edges and P = "\<lambda>x y. horizontalDiff ctx x y > 50"])
       (simp_all add: edgePixel_def)
  then show ?thesis by (simp only: grid_count)
qed

lemma v_edges_edgeScan:
  "v_edges (edgeScan ctx width height) =
     int (card {(x, y). 1 \<le> x \<and> x < width \<and> 1 \<le> y \<and> y < height \<and> verticalDiff ctx x y > 50})"
proof -
  have "v_edges (edgeScan ctx width height) =
      (\<Sum>y\<leftarrow>[1..<height]. int (length (filter (\<lambda>x. verticalDiff ctx x y > 50) [1..<width])))"
    unfolding edgeScan_fold
    by (subst fold_fold_count [where f = v_edges and P = "\<lambda>x y. verticalDiff ctx x y > 50"])
       (simp_all add: edgePixel_def)
  then show ?thesis by (simp only: grid_count)
qed

lemma rect_shapes_edgeScan:
  "rect_shapes (edgeScan ctx width height) =
     int (card {(x, y). 1 \<le> x \<and> x < width \<and> 1 \<le> y \<and> y < height \<and>
                 (horizontalDiff ctx x y > 50 \<and> verticalDiff ctx x y > 50)})"
proof -
  have "rect_shapes (edgeScan ctx width height) =
      (\<Sum>y\<leftarrow>[1..<height]. int (length (filter
          (\<lambda>x. horizontalDiff ctx x y > 50 \<and> verticalDiff ctx x y > 50) [1..<width])))"
    unfolding edgeScan_fold
    by (subst fold_fold_count [where f = rect_shapes
          and P = "\<lambda>x y. horizontalDiff ctx x y > 50 \<and> verticalDiff ctx x y > 50"])
       (simp_all add: edgePixel_def)
  then show ?thesis by (simp only: grid_count)
qed

lemma horizontalDiff_spec:
  "horizontalDiff ctx x y =
     \<bar>double (double_brightness ctx x y - double_brightness ctx (x - 1) y)\<bar>"
  unfolding horizontalDiff_def meanOfChannels_one ..

lemma verticalDiff_spec:
  "verticalDiff ctx x y =
     \<bar>double (double_brightness ctx x y - double_brightness ctx x (y - 1))\<bar>"
  unfolding verticalDiff_def meanOfChannels_one ..

lemma double_zero: "double 0 = 0"
  by (simp add: double_def)

lemma double_values:
  "double 255 = 255" "double (- 255) = - 255"
  "double (400 / 3) = 4691249611844267 / 35184372088832"
  "double (250 / 3) = 5864062014805333 / 70368744177664"
  "double (3518437208883201 / 70368744177664) = 3518437208883201 / 70368744177664"
  by code_simp+

lemma upt_from_one: "[1..<2] = [1]" "[1..<3] = [1, 2]"
  by (simp_all add: upt_conv_Cons)

lemma corner_brightness: "double_brightness corner x y = (if x = 1 \<and> y = 1 then 255 else 0)"
  by (simp add: double_brightness_def spec_brightness_def corner_def double_zero double_values)

lemma corner_scan: "edgeScan corner 3 3 = \<lparr>h_edges = 2, v_edges = 2, rect_shapes = 1\<rparr>"
  unfolding edgeScan_fold upt_from_one
  by (simp add: edgePixel_def horizontalDiff_spec verticalDiff_spec
      corner_brightness double_zero double_values)

lemma corner_edges:
  "analyzeEdges corner 3 3 =
     Some \<lparr>horizontalEdges = 2, verticalEdges = 2, normalizedEdges = 4 / 9, rectangularShapes = 1\<rparr>"
  by (simp add: analyzeEdges_def corner_scan)

lemma threshold_pair_brightness:
  "double_brightness threshold_pair x y =
     (if x = 1 \<and> y = 1 then 4691249611844267 / 35184372088832
      else 5864062014805333 / 70368744177664)"
  by (simp add: double_brightness_def spec_brightness_def threshold_pair_def double_values)

lemma threshold_pair_double:
  "\<bar>double (double_brightness threshold_pair 1 1 - double_brightness threshold_pair 0 1)\<bar> =
     50 + 1 / 2 ^ 46"
  "\<bar>double (double_brightness threshold_pair 1 1 - double_brightness threshold_pair 1 0)\<bar> =
     50 + 1 / 2 ^ 46"
  by (simp_all add: threshold_pair_brightness double_values)

lemma threshold_pair_exact:
  "\<bar>spec_brightness threshold_pair 1 1 - spec_brightness threshold_pair 0 1\<bar> = 50"
  "\<bar>spec_brightness threshold_pair 1 1 - spec_brightness threshold_pair 1 0\<bar> = 50"
  by (simp_all add: spec_brightness_def threshold_pair_def)

lemma threshold_pair_scan:
  "edgeScan threshold_pair 2 2 = \<lparr>h_edges = 1, v_edges = 1, rect_shapes = 1\<rparr>"
  unfolding edgeScan_fold upt_from_one
  by (simp add: edgePixel_def horizontalDiff_spec verticalDiff_spec
      threshold_pair_brightness double_values)

lemma threshold_pair_edges:
  "analyzeEdges threshold_pair 2 2 =
     Some \<lparr>horizontalEdges = 1, verticalEdges = 1, normalizedEdges = 1 / 2, rectangularShapes = 1\<rparr>"
  by (simp add: analyzeEdges_def threshold_pair_scan)

lemma threshold_pair_exact_count:
  "card {(x, y). 1 \<le> x \<and> x < 2 \<and> 1 \<le> y \<and> y < 2 \<and>
       \<bar>spec_brightness threshold_pair x y - spec_brightness threshold_pair (x - 1) y\<bar> > 50} = 0"
proof -
  have "\<not> (1 \<le> x \<and> x < 2 \<and> 1 \<le> y \<and> y < 2 \<and>
       \<bar>spec_brightness threshold_pair x y - spec_brightness threshold_pair (x - 1) y\<bar> > 50)"
    for x y :: nat
  proof
    assume a: "1 \<le> x \<and> x < 2 \<and> 1 \<le> y \<and> y < 2 \<and>
       \<bar>spec_brightness threshold_pair x y - spec_brightness threshold_pair (x - 1) y\<bar> > 50"
    then have "x = 1" "y = 1" by simp_all
    with a threshold_pair_exact(1) show False by simp
  qed
  then have "{(x, y). 1 \<le> x \<and> x < 2 \<and> 1 \<le> y \<and> y < 2 \<and>
       \<bar>spec_brightness threshold_pair x y - spec_brightness threshold_pair (x - 1) y\<bar> > 50} = {}"
    by blast
  then show ?thesis by (simp only: card.empty)
qed

text \<open>
  Claim C4, with the differences taken in double precision. The edge scan visits exactly
  the pixels with \<open>x \<ge> 1\<close> and \<open>y \<ge> 1\<close> inside the image. Its three counters are the numbers of visited pixels whose
  brightness, in double-precision arithmetic, differs by more than 50 from the left
  neighbour, from the upper neighbour, and from both. For an image with pixels,
  \<open>analyzeEdges\<close> returns these counters, and \<open>normalizedEdges\<close> is the sum of the two
  edge counters divided by \<open>width * height\<close>.
\<close>

theorem C4_analyzeEdges_counts:
  "h_edges (edgeScan ctx width height) =
     int (card {(x, y). 1 \<le> x \<and> x < width \<and> 1 \<le> y \<and> y < height \<and>
                 \<bar>double (double_brightness ctx x y - double_brightness ctx (x - 1) y)\<bar> > 50}) \<and>
   v_edges (edgeScan ctx width height) =
     int (card {(x, y). 1 \<le> x \<and> x < width \<and> 1 \<le> y \<and> y < height \<and>
                 \<bar>double (double_brightness ctx x y - double_brightness ctx x (y - 1))\<bar> > 50}) \<and>
   rect_shapes (edgeScan ctx width height) =
     int (card {(x, y). 1 \<le> x \<and> x < width \<and> 1 \<le> y \<and> y < height \<and>
                 (\<bar>double (double_brightness ctx x y - double_brightness ctx (x - 1) y)\<bar> > 50 \<and>
                  \<bar>double (double_brightness ctx x y - double_brightness ctx x (y - 1))\<bar> > 50)}) \<and>
   (0 < width * height \<longrightarrow>
      analyzeEdges ctx width height =
        Some \<lparr>horizontalEdges = of_int (h_edges (edgeScan ctx width height)),
              verticalEdges = of_int (v_edges (edgeScan ctx width height)),
              normalizedEdges =
                (of_int (h_edges (edgeScan ctx width height)) +
                 of_int (v_edges (edgeScan ctx width height))) / of_nat (width * height),
              rectangularShapes = of_int (rect_shapes (edgeScan ctx width height))\<rparr>)"
proof -
  have "0 < width * height \<longrightarrow>
      analyzeEdges ctx width height =
        Some \<lparr>horizontalEdges = of_int (h_edges (edgeScan ctx width height)),
              verticalEdges = of_int (v_edges (edgeScan ctx width height)),
              normalizedEdges =
                (of_int (h_edges (edgeScan ctx width height)) +
                 of_int (v_edges (edgeScan ctx width height))) / of_nat (width * height),
              rectangularShapes = of_int (rect_shapes (edgeScan ctx width height))\<rparr>"
    by (simp add: analyzeEdges_def Let_def)
  then show ?thesis
    using h_edges_edgeScan [of ctx width height] v_edges_edgeScan [of ctx width height]
      rect_shapes_edgeScan [of ctx width height]
    unfolding horizontalDiff_spec verticalDiff_spec by blast
qed

theorem C4_analyzeEdges_counts_witness:
  "(0::nat) < 3 * 3 \<and>
   analyzeEdges corner 3 3 =
     Some \<lparr>horizontalEdges = 2, verticalEdges = 2, normalizedEdges = 4 / 9, rectangularShapes = 1\<rparr> \<and>
   card {(x, y). 1 \<le> x \<and> x < 3 \<and> 1 \<le> y \<and> y < 3 \<and>
                 \<bar>double (double_brightness corner x y - double_brightness corner (x - 1) y)\<bar> > 50} = 2"
  using C4_analyzeEdges_counts [of corner 3 3] corner_scan by simp

text \<open>
  Claim C4 as the specification words it, with the exact means, fails on the image
  \<open>threshold_pair\<close>: the scan visits the pixel (1, 1) only, whose mean differs from that of
  either neighbour by exactly 50 and not by more (so that the count of the claim is 0, by
  \<open>threshold_pair_exact_count\<close>), and the analyzer counts a horizontal edge, a vertical
  edge and a rectangular shape there.
\<close>

theorem C4_exact_threshold_counterexample:
  "analyzeEdges threshold_pair 2 2 =
     Some \<lparr>horizontalEdges = 1, verticalEdges = 1, normalizedEdges = 1 / 2, rectangularShapes = 1\<rparr> \<and>
   \<bar>spec_brightness threshold_pair 1 1 - spec_brightness threshold_pair 0 1\<bar> = 50 \<and>
   \<bar>spec_brightness threshold_pair 1 1 - spec_brightness threshold_pair 1 0\<bar> = 50 \<and>
   \<not> \<bar>spec_brightness threshold_pair 1 1 - spec_brightness threshold_pair 0 1\<bar> > 50 \<and>
   \<not> \<bar>spec_brightness threshold_pair 1 1 - spec_brightness threshold_pair 1 0\<bar> > 50"
  using threshold_pair_edges threshold_pair_exact by simp

lemma edgePixel_rect_le: "rect_le_edges s \<Longrightarrow> rect_le_edges (edgePixel ctx x y s)"
  by (simp add: rect_le_edges_def edgePixel_def)

lemma edgesRow_rect_le: "rect_le_edges s \<Longrightarrow> rect_le_edges (edgesRow ctx width y x s)"
proof (induction ctx width y x s rule: edgesRow.induct)
  case (1 ctx width y x s)
  show ?case
  proof (cases "x < width")
    case True
    have "rect_le_edges (edgesRow ctx width y (x + 1) (edgePixel ctx x y s))"
      using True "1.prems" by (intro "1.IH" edgePixel_rect_le)
    then show ?thesis using True by (subst edgesRow.simps) simp
  next
    case False
    then show ?thesis using "1.prems" by (subst edgesRow.simps) simp
  qed
qed

lemma edgesRows_rect_le: "rect_le_edges s \<Longrightarrow> rect_le_edges (edgesRows ctx width height y s)"
proof (induction ctx width height y s rule: edgesRows.induct)
  case (1 ctx width height y s)
  show ?case
  proof (cases "y < height")
    case True
    have "rect_le_edges (edgesRows ctx width height (y + 1) (edgesRow ctx width y 1 s))"
      using True "1.prems" by (intro "1.IH" edgesRow_rect_le)
    then show ?thesis using True by (subst edgesRows.simps) simp
  next
    case False
    then show ?thesis using "1.prems" by (subst edgesRows.simps) simp
  qed
qed

lemma edgeScan_rect_le: "rect_le_edges (edgeScan ctx width height)"
  unfolding edgeScan_def by (rule edgesRows_rect_le) (simp add: rect_le_edges_def)

text \<open>
  Claim C10. The count of rectangular shapes exceeds neither the count of horizontal edges
  nor the count of vertical edges.
\<close>

theorem C10_rectangular_le_edges:
  "rect_shapes (edgeScan ctx width height) \<le> h_edges (edgeScan ctx width height) \<and>
   rect_shapes (edgeScan ctx width height) \<le> v_edges (edgeScan ctx width height) \<and>
   (\<forall>e. analyzeEdges ctx width height = Some e \<longrightarrow>
        rectangularShapes e \<le> horizontalEdges e \<and> rectangularShapes e \<le> verticalEdges e)"
  using edgeScan_rect_le [of ctx width height]
  by (auto simp: rect_le_edges_def analyzeEdges_def Let_def split: if_splits)

theorem C10_rectangular_le_edges_witness:
  "analyzeEdges corner 3 3 =
     Some \<lparr>horizontalEdges = 2, verticalEdges = 2, normalizedEdges = 4 / 9, rectangularShapes = 1\<rparr> \<and>
   rectangularShapes \<lparr>horizontalEdges = 2, verticalEdges = 2, normalizedEdges = 4 / 9, rectangularShapes = 1\<rparr>
     \<le> horizontalEdges \<lparr>horizontalEdges = 2, verticalEdges = 2, normalizedEdges = 4 / 9, rectangularShapes = 1\<rparr>"
  using C10_rectangular_le_edges [of corner 3 3] corner_edges by simp

section \<open>Properties of the colour analyzer\<close>

lemma quad_buffer:
  assumes "length xs = 4 * Suc n"
  shows "\<exists>r g b a rest. xs = r # g # b # a # rest \<and> length rest = 4 * n"
proof -
  from assms have "length xs = Suc (Suc (Suc (Suc (4 * n))))" by simp
  then show ?thesis by (auto simp: length_Suc_conv)
qed

lemma scanColors_opaque:
  "length data = 4 * n \<Longrightarrow> scanColors data s = Some (countPixels (opaquePixels data) s)"
proof (induction n arbitrary: data s)
  case 0
  then show ?case by (simp add: countPixels_def)
next
  case (Suc n)
  from quad_buffer [OF Suc.prems] obtain r g b a rest
    where data: "data = r # g # b # a # rest" and len: "length rest = 4 * n" by blast
  show ?case
    unfolding data using Suc.IH [OF len] by (simp add: countPixels_def)
qed

lemma length_opaquePixels: "length data = 4 * n \<Longrightarrow> length (opaquePixels data) \<le> n"
proof (induction n arbitrary: data)
  case 0
  then show ?case by simp
next
  case (Suc n)
  from quad_buffer [OF Suc.prems] obtain r g b a rest
    where data: "data = r # g # b # a # rest" and len: "length rest = 4 * n" by blast
  show ?case
    unfolding data using Suc.IH [OF len] by simp
qed

lemma pixelBrightness_of_nat:
  "pixelBrightness r g b = rat_of_nat (unat r + unat g + unat b) / 3"
  by (simp add: pixelBrightness_def)

lemma pixelBrightness_range: "0 \<le> pixelBrightness r g b \<and> pixelBrightness r g b \<le> 255"
proof -
  have "unat r \<le> 255" "unat g \<le> 255" "unat b \<le> 255"
    using unsigned_less [of r, where 'a = nat] unsigned_less [of g, where 'a = nat]
      unsigned_less [of b, where 'a = nat] by simp_all
  then have "unat r + unat g + unat b \<le> 765" by linarith
  then have "rat_of_nat (unat r + unat g + unat b) \<le> rat_of_nat 765"
    by (simp only: of_nat_le_iff)
  moreover have "0 \<le> rat_of_nat (unat r + unat g + unat b)"
    by (rule of_nat_0_le_iff)
  ultimately show ?thesis
    unfolding pixelBrightness_of_nat by simp
qed

lemma darkPixels_countPixels:
  "darkPixels (countPixels ps s) = darkPixels s + int (length (filter isDark ps))"
  unfolding countPixels_def
  by (rule fold_count) (simp add: countPixel_def isDark_def split: prod.splits)

lemma lightPixels_countPixels:
  "lightPixels (countPixels ps s) = lightPixels s + int (length (filter isLight ps))"
  unfolding countPixels_def
  by (rule fold_count) (simp add: countPixel_def isLight_def split: prod.splits)

lemma brightnessSum_countPixels:
  "brightnessSum (countPixels ps s) =
     brightnessSum s + (\<Sum>(r, g, b)\<leftarrow>ps. pixelBrightness r g b)"
  unfolding countPixels_def
  by (induction ps arbitrary: s) (auto simp: countPixel_def)

lemma colorCounts_countPixels:
  "colorCounts (countPixels ps s) =
     fold increment (map (\<lambda>(r, g, b). quantizedColor r g b) ps) (colorCounts s)"
  unfolding countPixels_def
  by (induction ps arbitrary: s) (auto simp: countPixel_def)

lemma dark_light_le: "length (filter isDark ps) + length (filter isLight ps) \<le> length ps"
proof (induction ps)
  case Nil
  then show ?case by simp
next
  case (Cons p ps)
  have "\<not> (isDark p \<and> isLight p)"
    by (auto simp: isDark_def isLight_def split: prod.splits)
  then show ?case using Cons.IH by auto
qed

lemma brightness_sum_range:
  "0 \<le> (\<Sum>(r, g, b)\<leftarrow>ps. pixelBrightness r g b) \<and>
   (\<Sum>(r, g, b)\<leftarrow>ps. pixelBrightness r g b) \<le> 255 * of_nat (length ps)"
proof (induction ps)
  case Nil
  then show ?case by simp
next
  case (Cons p ps)
  obtain r g b where p: "p = (r, g, b)" by (cases p) auto
  show ?case
    using Cons.IH pixelBrightness_range [of r g b] by (simp add: p algebra_simps)
qed

lemma analyzeColors_wellformed:
  assumes "length data = 4 * n" and "0 < total_pixels"
  shows "analyzeColors data total_pixels =
     Some \<lparr>dominantColors =
             map fst (take 3 (sortEntries (colorCounts (countPixels (opaquePixels data) initialScan)))),
           darkRatio = of_nat (length (filter isDark (opaquePixels data))) / of_nat total_pixels,
           lightRatio = of_nat (length (filter isLight (opaquePixels data))) / of_nat total_pixels,
           brightness =
             (\<Sum>(r, g, b)\<leftarrow>opaquePixels data. pixelBrightness r g b) / of_nat total_pixels / 255\<rparr>"
  using assms
  by (simp add: analyzeColors_def scanColors_opaque [OF assms(1)] darkPixels_countPixels
      lightPixels_countPixels brightnessSum_countPixels initialScan_def)

lemma transparent_opaquePixels:
  "length data = 4 * n \<Longrightarrow> \<forall>k<n. data ! (4 * k + 3) = 0 \<Longrightarrow> opaquePixels data = []"
proof (induction n arbitrary: data)
  case 0
  then show ?case by simp
next
  case (Suc n)
  from quad_buffer [OF Suc.prems(1)] obtain r g b a rest
    where data: "data = r # g # b # a # rest" and len: "length rest = 4 * n" by blast
  have "data ! (4 * 0 + 3) = 0" using Suc.prems(2) by blast
  then have a: "a = 0" by (simp add: data numeral_3_eq_3)
  have "\<forall>k<n. rest ! (4 * k + 3) = 0"
  proof (intro allI impI)
    fix k assume "k < n"
    then have "data ! (4 * Suc k + 3) = 0" using Suc.prems(2) by (meson Suc_less_eq)
    moreover have "4 * Suc k + 3 = Suc (Suc (Suc (Suc (4 * k + 3))))" by simp
    ultimately show "rest ! (4 * k + 3) = 0" unfolding data by (simp only: nth_Cons_Suc)
  qed
  then have "opaquePixels rest = []" using Suc.IH [OF len] by blast
  then show ?case by (simp add: data a)
qed

text \<open>
  Claim C6. In a fully transparent image (every alpha is 0) with a positive pixel count, the
  colour analyzer counts no pixel: the dark ratio, the light ratio and the brightness are 0.
\<close>

theorem C6_transparent_image:
  assumes "length data = 4 * n" and "\<forall>k<n. data ! (4 * k + 3) = 0" and "0 < total_pixels"
  shows "opaquePixels data = [] \<and>
         analyzeColors data total_pixels =
           Some \<lparr>dominantColors = [], darkRatio = 0, lightRatio = 0, brightness = 0\<rparr>"
proof -
  have "opaquePixels data = []" using assms(1,2) by (rule transparent_opaquePixels)
  then show ?thesis
    using analyzeColors_wellformed [OF assms(1,3)]
    by (simp add: countPixels_def initialScan_def sortEntries_def)
qed

theorem C6_transparent_image_witness:
  "length [10, 20, 30, 0, 200, 200, 200, 0 :: 8 word] = 4 * 2 \<and>
   [10, 20, 30, 0, 200, 200, 200, 0 :: 8 word] ! (4 * 0 + 3) = 0 \<and>
   [10, 20, 30, 0, 200, 200, 200, 0 :: 8 word] ! (4 * 1 + 3) = 0 \<and> (0::nat) < 2 \<and>
   analyzeColors [10, 20, 30, 0, 200, 200, 200, 0] 2 =
     Some \<lparr>dominantColors = [], darkRatio = 0, lightRatio = 0, brightness = 0\<rparr>"
proof -
  have l: "length [10, 20, 30, 0, 200, 200, 200, 0 :: 8 word] = 4 * 2" by simp
  have t: "\<forall>k<2. [10, 20, 30, 0, 200, 200, 200, 0 :: 8 word] ! (4 * k + 3) = 0"
    by (simp add: less_Suc_eq numeral_2_eq_2 numeral_3_eq_3)
  have p: "(0::nat) < 2" by simp
  have t0: "[10, 20, 30, 0, 200, 200, 200, 0 :: 8 word] ! (4 * 0 + 3) = 0"
    and t1: "[10, 20, 30, 0, 200, 200, 200, 0 :: 8 word] ! (4 * 1 + 3) = 0"
    by (simp_all add: numeral_3_eq_3)
  show ?thesis using C6_transparent_image [OF l t p] l t0 t1 p by blast
qed

lemma ratio_range:
  assumes "k \<le> n" and "0 < n"
  shows "0 \<le> rat_of_nat k / rat_of_nat n \<and> rat_of_nat k / rat_of_nat n \<le> 1"
  using assms by (simp add: divide_le_eq_1)

text \<open>
  Claim C9. For a pixel buffer analysed with its own pixel count, the dark ratio and the
  light ratio sum to at most 1, so the classifier never reports a dark and a light theme
  together.
\<close>

theorem C9_dark_light_exclusive:
  assumes "length data = 4 * n" and "0 < n"
  shows "\<exists>ca. analyzeColors data n = Some ca \<and> darkRatio ca + lightRatio ca \<le> 1 \<and>
           (\<forall>e p. \<not> (isDarkMode (analyzeContent ca e p) \<and> isLightMode (analyzeContent ca e p)))"
proof -
  let ?ps = "opaquePixels data"
  let ?d = "length (filter isDark ?ps)" and ?l = "length (filter isLight ?ps)"
  let ?D = "rat_of_nat ?d / rat_of_nat n" and ?L = "rat_of_nat ?l / rat_of_nat n"
  obtain ca where ca: "analyzeColors data n = Some ca" and d: "darkRatio ca = ?D"
    and l: "lightRatio ca = ?L"
    using analyzeColors_wellformed [OF assms] by simp
  have "?d + ?l \<le> length ?ps" by (rule dark_light_le)
  also have "length ?ps \<le> n" using assms(1) by (rule length_opaquePixels)
  finally have le: "?d + ?l \<le> n" .
  have "?D + ?L = rat_of_nat (?d + ?l) / rat_of_nat n"
    by (simp add: add_divide_distrib)
  also have "\<dots> \<le> 1" using ratio_range [OF le assms(2)] by blast
  finally have sum: "darkRatio ca + lightRatio ca \<le> 1" unfolding d l .
  then have "\<not> (darkRatio ca > 7 / 10 \<and> lightRatio ca > 7 / 10)" by linarith
  then have "\<forall>e p. \<not> (isDarkMode (analyzeContent ca e p) \<and> isLightMode (analyzeContent ca e p))"
    unfolding isDarkMode_analyzeContent isLightMode_analyzeContent by blast
  with ca sum show ?thesis by blast
qed

theorem C9_dark_light_exclusive_witness:
  "length [0, 0, 0, 255, 255, 255, 255, 255 :: 8 word] = 4 * 2 \<and> (0::nat) < 2 \<and>
   (\<exists>ca. analyzeColors [0, 0, 0, 255, 255, 255, 255, 255] 2 = Some ca \<and>
      darkRatio ca + lightRatio ca \<le> 1)"
proof -
  have l: "length [0, 0, 0, 255, 255, 255, 255, 255 :: 8 word] = 4 * 2" by simp
  have p: "(0::nat) < 2" by simp
  show ?thesis using C9_dark_light_exclusive [OF l p] l p by blast
qed

section \<open>Properties of the pattern analyzer, and of the three analyzers together\<close>

lemma patternsRow_fold:
  "patternsRow ctx width y x n = fold (\<lambda>x. patternPixel ctx x y) [x..<width] n"
proof (induction ctx width y x n rule: patternsRow.induct)
  case (1 ctx width y x n)
  show ?case
  proof (cases "x < width")
    case True
    then show ?thesis
      using "1.IH" by (subst patternsRow.simps) (simp add: upt_conv_Cons)
  next
    case False
    then show ?thesis by (subst patternsRow.simps) simp
  qed
qed

lemma patternsRows_fold:
  "patternsRows ctx width height y n = fold (\<lambda>y. patternsRow ctx width y 3) [y..<height] n"
proof (induction ctx width height y n rule: patternsRows.induct)
  case (1 ctx width height y n)
  show ?case
  proof (cases "y < height")
    case True
    then show ?thesis
      using "1.IH" by (subst patternsRows.simps) (simp add: upt_conv_Cons)
  next
    case False
    then show ?thesis by (subst patternsRows.simps) simp
  qed
qed

lemma patternsRows_count:
  "patternsRows ctx width height 3 0 =
     int (card {(x, y). 3 \<le> x \<and> x < width \<and> 3 \<le> y \<and> y < height \<and> regularAt ctx x y})"
proof -
  have "patternsRows ctx width height 3 0 =
      (\<lambda>n. n) (fold (\<lambda>y. fold (\<lambda>x. patternPixel ctx x y) [3..<width]) [3..<height] 0)"
    unfolding patternsRows_fold patternsRow_fold ..
  also have "\<dots> = 0 + (\<Sum>y\<leftarrow>[3..<height]. int (length (filter (\<lambda>x. regularAt ctx x y) [3..<width])))"
    by (rule fold_fold_count) (simp add: patternPixel_def regularAt_def Let_def)
  finally show ?thesis by (simp only: grid_count add_0)
qed

lemma upt_three: "[n..<n + 3] = [n, n + 1, n + 2]"
  by (simp add: upt_conv_Cons)

lemma getImageData_three:
  "getImageData ctx sx sy 3 3 =
     pixelBytes (ctx sx sy) @ pixelBytes (ctx (sx + 1) sy) @ pixelBytes (ctx (sx + 2) sy) @
     pixelBytes (ctx sx (sy + 1)) @ pixelBytes (ctx (sx + 1) (sy + 1)) @ pixelBytes (ctx (sx + 2) (sy + 1)) @
     pixelBytes (ctx sx (sy + 2)) @ pixelBytes (ctx (sx + 1) (sy + 2)) @ pixelBytes (ctx (sx + 2) (sy + 2))"
  unfolding getImageData_def upt_three by simp

lemma black_regularAt:
  assumes "blackImage ctx width height" and "3 \<le> x" and "x < width" and "3 \<le> y" and "y < height"
  shows "regularAt ctx x y"
proof -
  have px: "ctx u v = (0, 0, 0, 255)" if "u < width" and "v < height" for u v
    using assms(1) that by (simp add: blackImage_def)
  have "ctx (x - 3) (y - 3) = (0, 0, 0, 255)" "ctx (x - 3 + 1) (y - 3) = (0, 0, 0, 255)"
    "ctx (x - 3 + 2) (y - 3) = (0, 0, 0, 255)" "ctx (x - 3) (y - 3 + 1) = (0, 0, 0, 255)"
    "ctx (x - 3 + 1) (y - 3 + 1) = (0, 0, 0, 255)" "ctx (x - 3 + 2) (y - 3 + 1) = (0, 0, 0, 255)"
    "ctx (x - 3) (y - 3 + 2) = (0, 0, 0, 255)" "ctx (x - 3 + 1) (y - 3 + 2) = (0, 0, 0, 255)"
    "ctx (x - 3 + 2) (y - 3 + 2) = (0, 0, 0, 255)" "ctx x y = (0, 0, 0, 255)"
    using assms(2-5) by (auto intro!: px)
  then show ?thesis
    unfolding regularAt_def getImageData_three getImageData_one
    by (simp add: pixelBytes_def absDiff_def)
qed

lemma card_grid: "card {(x, y). a \<le> x \<and> x < w \<and> a \<le> y \<and> y < h} = (w - a) * (h - a)"
proof -
  have "{(x, y). a \<le> x \<and> x < w \<and> a \<le> y \<and> y < h} = {a..<w} \<times> {a..<h}" by auto
  then show ?thesis by (simp add: card_cartesian_product)
qed

lemma black_patterns:
  assumes "blackImage ctx width height"
  shows "patternsRows ctx width height 3 0 = int ((width - 3) * (height - 3))"
proof -
  have "{(x, y). 3 \<le> x \<and> x < width \<and> 3 \<le> y \<and> y < height \<and> regularAt ctx x y} =
        {(x, y). 3 \<le> x \<and> x < width \<and> 3 \<le> y \<and> y < height}"
    using black_regularAt [OF assms] by auto
  then show ?thesis unfolding patternsRows_count by (simp only: card_grid)
qed

lemma black_brightness:
  assumes "blackImage ctx width height" and "x < width" and "y < height"
  shows "double_brightness ctx x y = 0"
  using assms by (simp add: blackImage_def double_brightness_def spec_brightness_def double_zero)

lemma black_edges:
  assumes "blackImage ctx width height"
  shows "edgeScan ctx width height = \<lparr>h_edges = 0, v_edges = 0, rect_shapes = 0\<rparr>"
proof -
  have h: "\<not> (1 \<le> x \<and> x < width \<and> 1 \<le> y \<and> y < height \<and> horizontalDiff ctx x y > 50)" for x y
    unfolding horizontalDiff_spec using black_brightness [OF assms] by (auto simp: double_zero)
  have v: "\<not> (1 \<le> x \<and> x < width \<and> 1 \<le> y \<and> y < height \<and> verticalDiff ctx x y > 50)" for x y
    unfolding verticalDiff_spec using black_brightness [OF assms] by (auto simp: double_zero)
  have e1: "{(x, y). 1 \<le> x \<and> x < width \<and> 1 \<le> y \<and> y < height \<and> horizontalDiff ctx x y > 50} = {}"
    using h by blast
  have 1: "h_edges (edgeScan ctx width height) = 0"
    by (simp only: h_edges_edgeScan e1 card.empty of_nat_0)
  have e2: "{(x, y). 1 \<le> x \<and> x < width \<and> 1 \<le> y \<and> y < height \<and> verticalDiff ctx x y > 50} = {}"
    using v by blast
  have 2: "v_edges (edgeScan ctx width height) = 0"
    by (simp only: v_edges_edgeScan e2 card.empty of_nat_0)
  have e3: "{(x, y). 1 \<le> x \<and> x < width \<and> 1 \<le> y \<and> y < height \<and>
       (horizontalDiff ctx x y > 50 \<and> verticalDiff ctx x y > 50)} = {}"
    using h by blast
  have 3: "rect_shapes (edgeScan ctx width height) = 0"
    by (simp only: rect_shapes_edgeScan e3 card.empty of_nat_0)
  show ?thesis using 1 2 3 by (cases "edgeScan ctx width height") simp
qed

lemma length_pixelBytes: "length (pixelBytes px) = 4"
  by (cases px) (simp add: pixelBytes_def)

lemma length_concat_const:
  "(\<And>x. length (f x) = c) \<Longrightarrow> length (concat (map f xs)) = c * length xs"
  by (induction xs) auto

lemma length_getImageData: "length (getImageData ctx sx sy sw sh) = 4 * (sw * sh)"
proof -
  have row: "length (concat (map (\<lambda>x. pixelBytes (ctx x y)) [sx..<sx + sw])) = 4 * sw" for y
    using length_concat_const [of "\<lambda>x. pixelBytes (ctx x y)" 4 "[sx..<sx + sw]"]
    by (simp add: length_pixelBytes)
  show ?thesis
    unfolding getImageData_def
    using length_concat_const
      [of "\<lambda>y. concat (map (\<lambda>x. pixelBytes (ctx x y)) [sx..<sx + sw])" "4 * sw" "[sy..<sy + sh]"]
    by (simp add: row)
qed

lemma opaquePixels_black_append:
  "opaquePixels (concat (replicate n [0, 0, 0, 255])) = replicate n (0, 0, 0)"
  by (induction n) simp_all

lemma concat_replicate_mult:
  "concat (replicate h (concat (replicate w c))) = concat (replicate (h * w) c)"
  by (induction h) (simp_all add: replicate_add)

lemma black_data:
  assumes "blackImage ctx width height"
  shows "getImageData ctx 0 0 width height = concat (replicate (height * width) [0, 0, 0, 255])"
proof -
  have row: "concat (map (\<lambda>x. pixelBytes (ctx x y)) [0..<width]) = concat (replicate width [0, 0, 0, 255])"
    if "y < height" for y
  proof -
    have "map (\<lambda>x. pixelBytes (ctx x y)) [0..<width] = map (\<lambda>x. [0, 0, 0, 255]) [0..<width]"
      using assms that by (intro map_cong) (simp_all add: blackImage_def pixelBytes_def)
    then show ?thesis by (simp add: map_replicate_const)
  qed
  have "map (\<lambda>y. concat (map (\<lambda>x. pixelBytes (ctx x y)) [0..<width])) [0..<height] =
        map (\<lambda>y. concat (replicate width [0, 0, 0, 255])) [0..<height]"
    by (intro map_cong) (simp_all add: row)
  then show ?thesis
    unfolding getImageData_def by (simp add: map_replicate_const concat_replicate_mult)
qed

lemma isDark_black: "isDark (0, 0, 0)" and isLight_black: "\<not> isLight (0, 0, 0)"
  by (simp_all add: isDark_def isLight_def pixelBrightness_def)

text \<open>
  Claim C5. For an all-black opaque image at least 3 pixels wide and high, the dark ratio
  is 1, the light ratio and the brightness are 0, no edge and no rectangular shape is
  counted, and the count of regular patterns is \<open>(width - 3) * (height - 3)\<close>.
\<close>

theorem C5_black_image:
  assumes "3 \<le> width" and "3 \<le> height" and "blackImage ctx width height"
  shows "\<exists>ca ea. analyzeColors (getImageData ctx 0 0 width height) (width * height) = Some ca \<and>
           analyzeEdges ctx width height = Some ea \<and>
           darkRatio ca = 1 \<and> lightRatio ca = 0 \<and> brightness ca = 0 \<and>
           horizontalEdges ea = 0 \<and> verticalEdges ea = 0 \<and> rectangularShapes ea = 0 \<and>
           regularPatterns (analyzePatterns ctx width height) =
             of_nat ((width - 3) * (height - 3))"
proof -
  let ?data = "getImageData ctx 0 0 width height"
  have pos: "0 < width * height" using assms(1,2) by simp
  have len: "length ?data = 4 * (width * height)" by (rule length_getImageData)
  have ps: "opaquePixels ?data = replicate (height * width) (0, 0, 0)"
    unfolding black_data [OF assms(3)] by (rule opaquePixels_black_append)
  have dark: "length (filter isDark (opaquePixels ?data)) = width * height"
    unfolding ps using isDark_black by (simp add: mult.commute)
  have light: "length (filter isLight (opaquePixels ?data)) = 0"
    unfolding ps using isLight_black by simp
  have sum: "(\<Sum>(r, g, b)\<leftarrow>opaquePixels ?data. pixelBrightness r g b) = 0"
    unfolding ps by (simp add: pixelBrightness_def sum_list_replicate)
  obtain ca where ca: "analyzeColors ?data (width * height) = Some ca"
    and d: "darkRatio ca = 1" and l: "lightRatio ca = 0" and b: "brightness ca = 0"
    using analyzeColors_wellformed [OF len pos] pos unfolding dark light sum by simp
  obtain ea where ea: "analyzeEdges ctx width height = Some ea"
    and h: "horizontalEdges ea = 0" and v: "verticalEdges ea = 0" and r: "rectangularShapes ea = 0"
    using pos by (simp add: analyzeEdges_def Let_def black_edges [OF assms(3)])
  have p: "regularPatterns (analyzePatterns ctx width height) = of_nat ((width - 3) * (height - 3))"
    unfolding analyzePatterns_def by (simp only: black_patterns [OF assms(3)] of_int_of_nat_eq PatternAnalysis.simps)
  from ca ea d l b h v r p show ?thesis by blast
qed

theorem C5_black_image_witness:
  "(3::nat) \<le> 4 \<and> blackImage black 4 4 \<and>
   (\<exists>ca ea. analyzeColors (getImageData black 0 0 4 4) (4 * 4) = Some ca \<and>
           analyzeEdges black 4 4 = Some ea \<and>
           darkRatio ca = 1 \<and> lightRatio ca = 0 \<and> brightness ca = 0 \<and>
           horizontalEdges ea = 0 \<and> verticalEdges ea = 0 \<and> rectangularShapes ea = 0 \<and>
           regularPatterns (analyzePatterns black 4 4) = 1)"
proof -
  have w: "(3::nat) \<le> 4" by simp
  have b: "blackImage black 4 4" by (simp add: blackImage_def black_def)
  show ?thesis using C5_black_image [OF w w b] w b by simp
qed

text \<open>
  Claim C7. For a buffer of \<open>width * height > 0\<close> whole pixels, the dark ratio, the light
  ratio and the brightness lie between 0 and 1, the four counters are not negative, and the
  pattern analysis carries \<open>width * height\<close> as its pixel count.
\<close>

theorem C7_range_invariants:
  assumes "length data = 4 * (width * height)" and "0 < width * height"
  shows "\<exists>ca ea. analyzeColors data (width * height) = Some ca \<and>
           analyzeEdges ctx width height = Some ea \<and>
           0 \<le> darkRatio ca \<and> darkRatio ca \<le> 1 \<and>
           0 \<le> lightRatio ca \<and> lightRatio ca \<le> 1 \<and>
           0 \<le> brightness ca \<and> brightness ca \<le> 1 \<and>
           0 \<le> horizontalEdges ea \<and> 0 \<le> verticalEdges ea \<and> 0 \<le> rectangularShapes ea \<and>
           0 \<le> regularPatterns (analyzePatterns ctx width height) \<and>
           totalPixels (analyzePatterns ctx width height) = of_nat (width * height)"
proof -
  let ?n = "width * height"
  let ?ps = "opaquePixels data"
  let ?S = "\<Sum>(r, g, b)\<leftarrow>?ps. pixelBrightness r g b"
  have n: "length ?ps \<le> ?n" using assms(1) by (rule length_opaquePixels)
  have "length (filter isDark ?ps) \<le> length ?ps" by simp
  then have dk: "length (filter isDark ?ps) \<le> ?n" using n by linarith
  have "length (filter isLight ?ps) \<le> length ?ps" by simp
  then have lt: "length (filter isLight ?ps) \<le> ?n" using n by linarith
  have S0: "0 \<le> ?S" and "?S \<le> 255 * rat_of_nat (length ?ps)"
    using brightness_sum_range [of ?ps] by blast+
  moreover have "rat_of_nat (length ?ps) \<le> rat_of_nat ?n" using n by (simp only: of_nat_le_iff)
  ultimately have S1: "?S \<le> 255 * rat_of_nat ?n" by linarith
  have npos: "0 < rat_of_nat ?n" using assms(2) by (simp only: of_nat_0_less_iff)
  have b0: "0 \<le> ?S / rat_of_nat ?n / 255" using S0 npos by simp
  have "q \<le> 255 \<Longrightarrow> q / 255 \<le> 1" for q :: rat by simp
  moreover have "?S / rat_of_nat ?n \<le> 255" using S1 npos by (simp only: pos_divide_le_eq)
  ultimately have b1: "?S / rat_of_nat ?n / 255 \<le> 1" by blast
  obtain ca where ca: "analyzeColors data ?n = Some ca"
    and d: "darkRatio ca = rat_of_nat (length (filter isDark ?ps)) / rat_of_nat ?n"
    and l: "lightRatio ca = rat_of_nat (length (filter isLight ?ps)) / rat_of_nat ?n"
    and b: "brightness ca = ?S / rat_of_nat ?n / 255"
    using analyzeColors_wellformed [OF assms] by simp
  have cr: "0 \<le> darkRatio ca \<and> darkRatio ca \<le> 1 \<and> 0 \<le> lightRatio ca \<and> lightRatio ca \<le> 1 \<and>
      0 \<le> brightness ca \<and> brightness ca \<le> 1"
    unfolding d l b using ratio_range [OF dk assms(2)] ratio_range [OF lt assms(2)] b0 b1 by blast
  obtain ea where ea: "analyzeEdges ctx width height = Some ea"
    and h: "horizontalEdges ea = of_int (h_edges (edgeScan ctx width height))"
    and v: "verticalEdges ea = of_int (v_edges (edgeScan ctx width height))"
    and r: "rectangularShapes ea = of_int (rect_shapes (edgeScan ctx width height))"
    using assms(2) by (simp add: analyzeEdges_def Let_def)
  have er: "0 \<le> horizontalEdges ea \<and> 0 \<le> verticalEdges ea \<and> 0 \<le> rectangularShapes ea"
    unfolding h v r h_edges_edgeScan v_edges_edgeScan rect_shapes_edgeScan by simp
  have pr: "0 \<le> regularPatterns (analyzePatterns ctx width height) \<and>
      totalPixels (analyzePatterns ctx width height) = of_nat (width * height)"
    unfolding analyzePatterns_def patternsRows_count by simp
  from ca ea cr er pr show ?thesis by blast
qed

theorem C7_range_invariants_witness:
  "length [0, 0, 0, 255, 255, 255, 255, 255 :: 8 word] = 4 * (2 * 1) \<and> (0::nat) < 2 * 1 \<and>
   (\<exists>ca ea. analyzeColors [0, 0, 0, 255, 255, 255, 255, 255] (2 * 1) = Some ca \<and>
           analyzeEdges corner 2 1 = Some ea \<and>
           0 \<le> darkRatio ca \<and> darkRatio ca \<le> 1 \<and>
           0 \<le> lightRatio ca \<and> lightRatio ca \<le> 1 \<and>
           0 \<le> brightness ca \<and> brightness ca \<le> 1 \<and>
           0 \<le> horizontalEdges ea \<and> 0 \<le> verticalEdges ea \<and> 0 \<le> rectangularShapes ea \<and>
           0 \<le> regularPatterns (analyzePatterns corner 2 1) \<and>
           totalPixels (analyzePatterns corner 2 1) = of_nat (2 * 1))"
proof -
  have l: "length [0, 0, 0, 255, 255, 255, 255, 255 :: 8 word] = 4 * (2 * 1)" by simp
  have p: "(0::nat) < 2 * 1" by simp
  show ?thesis using C7_range_invariants [OF l p, of corner] l p by blast
qed

section \<open>The dominant colours\<close>

lemma increment_table:
  "distinct xs \<Longrightarrow>
   increment k (map (\<lambda>x. (x, c x)) xs) =
     (if k \<in> set xs then map (\<lambda>x. (x, if x = k then c x + 1 else c x)) xs
      else map (\<lambda>x. (x, c x)) xs @ [(k, 1)])"
  by (induction xs) auto

lemma firstIndex_less: "x \<in> set xs \<Longrightarrow> firstIndex xs x < length xs"
  unfolding firstIndex_def by (induction xs) auto

lemma firstIndex_append_old: "x \<in> set xs \<Longrightarrow> firstIndex (xs @ ys) x = firstIndex xs x"
  unfolding firstIndex_def by (induction xs) auto

lemma firstIndex_append_new: "x \<notin> set xs \<Longrightarrow> firstIndex (xs @ [x]) x = length xs"
  unfolding firstIndex_def by (induction xs) auto

lemma fold_increment_table:
  "\<exists>xs. fold increment ks [] = map (\<lambda>x. (x, count_list ks x)) xs \<and> distinct xs \<and>
        set xs = set ks \<and> sorted_wrt (\<lambda>a b. firstIndex ks a < firstIndex ks b) xs"
proof (induction ks rule: rev_induct)
  case Nil
  then show ?case by simp
next
  case (snoc k ks)
  then obtain xs where tab: "fold increment ks [] = map (\<lambda>x. (x, count_list ks x)) xs"
    and dist: "distinct xs" and set: "set xs = set ks"
    and srt: "sorted_wrt (\<lambda>a b. firstIndex ks a < firstIndex ks b) xs" by blast
  have step: "fold increment (ks @ [k]) [] = increment k (map (\<lambda>x. (x, count_list ks x)) xs)"
    by (simp add: tab)
  show ?case
  proof (cases "k \<in> set ks")
    case True
    have "fold increment (ks @ [k]) [] = map (\<lambda>x. (x, count_list (ks @ [k]) x)) xs"
      unfolding step increment_table [OF dist] using True set by auto
    moreover have "sorted_wrt (\<lambda>a b. firstIndex (ks @ [k]) a < firstIndex (ks @ [k]) b) xs"
      using srt by (rule sorted_wrt_mono_rel [rotated]) (simp add: set firstIndex_append_old)
    ultimately show ?thesis using dist set True by (intro exI [of _ xs]) auto
  next
    case False
    have "fold increment (ks @ [k]) [] = map (\<lambda>x. (x, count_list (ks @ [k]) x)) (xs @ [k])"
      unfolding step increment_table [OF dist] using False set by auto
    moreover have "sorted_wrt (\<lambda>a b. firstIndex (ks @ [k]) a < firstIndex (ks @ [k]) b) xs"
      using srt by (rule sorted_wrt_mono_rel [rotated]) (simp add: set firstIndex_append_old)
    then have "sorted_wrt (\<lambda>a b. firstIndex (ks @ [k]) a < firstIndex (ks @ [k]) b) (xs @ [k])"
      using False
      by (simp add: sorted_wrt_append set firstIndex_append_old firstIndex_append_new firstIndex_less)
    ultimately show ?thesis using dist set False by (intro exI [of _ "xs @ [k]"]) auto
  qed
qed

lemma insort_key_map:
  "insort_key f (g x) (map g xs) = map g (insort_key (\<lambda>x. f (g x)) x xs)"
  by (induction xs) auto

lemma sort_key_map: "sort_key f (map g xs) = map g (sort_key (\<lambda>x. f (g x)) xs)"
  by (induction xs) (auto simp: insort_key_map)

lemma insort_ranks:
  assumes "sorted_wrt (ranksBefore ks) ys" and "\<forall>y\<in>set ys. firstIndex ks x < firstIndex ks y"
  shows "sorted_wrt (ranksBefore ks) (insort_key (\<lambda>x. - int (count_list ks x)) x ys)"
  using assms
proof (induction ys)
  case Nil
  then show ?case by simp
next
  case (Cons y ys)
  show ?case
  proof (cases "count_list ks y \<le> count_list ks x")
    case True
    have "ranksBefore ks x z" if "z \<in> set (y # ys)" for z
    proof -
      have "count_list ks z \<le> count_list ks y"
        using that Cons.prems(1) by (auto simp: ranksBefore_def)
      moreover have "firstIndex ks x < firstIndex ks z" using that Cons.prems(2) by blast
      ultimately show ?thesis using True by (auto simp: ranksBefore_def)
    qed
    then show ?thesis using True Cons.prems(1) by simp
  next
    case False
    have "sorted_wrt (ranksBefore ks) (insort_key (\<lambda>x. - int (count_list ks x)) x ys)"
      using Cons.prems by (intro Cons.IH) auto
    moreover have "ranksBefore ks y x" using False by (simp add: ranksBefore_def)
    ultimately show ?thesis using False Cons.prems(1) by (auto simp: set_insort_key)
  qed
qed

lemma sort_ranks:
  "sorted_wrt (\<lambda>a b. firstIndex ks a < firstIndex ks b) xs \<Longrightarrow>
   sorted_wrt (ranksBefore ks) (sort_key (\<lambda>x. - int (count_list ks x)) xs)"
proof (induction xs)
  case Nil
  then show ?case by simp
next
  case (Cons x xs)
  then have "sorted_wrt (ranksBefore ks) (sort_key (\<lambda>x. - int (count_list ks x)) xs)" by simp
  moreover have "\<forall>y\<in>set (sort_key (\<lambda>x. - int (count_list ks x)) xs). firstIndex ks x < firstIndex ks y"
    using Cons.prems by simp
  ultimately show ?case by (simp add: insort_ranks)
qed

text \<open>
  Claim C8. The dominant colours are the first three entries of the ranking of the colour
  keys of the counted pixels: every key once, by descending count, keys of equal count in the
  order in which they are first seen.
\<close>

theorem C8_dominant_colors:
  assumes "length data = 4 * n" and "0 < total_pixels"
  shows "\<exists>ca ranked. analyzeColors data total_pixels = Some ca \<and>
           dominantColors ca = take 3 ranked \<and> distinct ranked \<and>
           set ranked = set (colorKeys data) \<and>
           sorted_wrt (ranksBefore (colorKeys data)) ranked"
proof -
  let ?ks = "colorKeys data"
  let ?h = "\<lambda>x. - int (count_list ?ks x)"
  obtain xs where tab: "fold increment ?ks [] = map (\<lambda>x. (x, count_list ?ks x)) xs"
    and dist: "distinct xs" and set: "set xs = set ?ks"
    and srt: "sorted_wrt (\<lambda>a b. firstIndex ?ks a < firstIndex ?ks b) xs"
    using fold_increment_table [of ?ks] by blast
  have "colorCounts (countPixels (opaquePixels data) initialScan) = fold increment ?ks []"
    by (simp add: colorCounts_countPixels colorKeys_def initialScan_def)
  then have counts: "colorCounts (countPixels (opaquePixels data) initialScan) =
      map (\<lambda>x. (x, count_list ?ks x)) xs"
    by (simp only: tab)
  have "sortEntries (map (\<lambda>x. (x, count_list ?ks x)) xs) =
      map (\<lambda>x. (x, count_list ?ks x)) (sort_key ?h xs)"
    unfolding sortEntries_def sort_key_map by simp
  then have dom: "map fst (take 3 (sortEntries (colorCounts (countPixels (opaquePixels data) initialScan)))) =
      take 3 (sort_key ?h xs)"
    unfolding counts by (simp add: take_map [symmetric] comp_def)
  obtain ca where ca: "analyzeColors data total_pixels = Some ca"
    and d: "dominantColors ca = take 3 (sort_key ?h xs)"
    using analyzeColors_wellformed [OF assms] unfolding dom by simp
  have "distinct (sort_key ?h xs)" "set (sort_key ?h xs) = set ?ks"
    using dist set by simp_all
  moreover have "sorted_wrt (ranksBefore ?ks) (sort_key ?h xs)" using srt by (rule sort_ranks)
  ultimately show ?thesis using ca d by blast
qed

theorem C8_dominant_colors_witness:
  "length [0,0,0,255, 255,255,255,255, 255,0,0,255, 100,100,100,255, 255,0,0,255,
           255,255,255,255 :: 8 word] = 4 * 6 \<and> (0::nat) < 6 \<and>
   (\<exists>ca ranked. analyzeColors [0,0,0,255, 255,255,255,255, 255,0,0,255, 100,100,100,255,
           255,0,0,255, 255,255,255,255] 6 = Some ca \<and>
      dominantColors ca = take 3 ranked \<and> distinct ranked \<and>
      set ranked = set (colorKeys [0,0,0,255, 255,255,255,255, 255,0,0,255, 100,100,100,255,
           255,0,0,255, 255,255,255,255]) \<and>
      sorted_wrt (ranksBefore (colorKeys [0,0,0,255, 255,255,255,255, 255,0,0,255,
           100,100,100,255, 255,0,0,255, 255,255,255,255])) ranked)"
proof -
  have l: "length [0,0,0,255, 255,255,255,255, 255,0,0,255, 100,100,100,255, 255,0,0,255,
           255,255,255,255 :: 8 word] = 4 * 6" by simp
  have p: "(0::nat) < 6" by simp
  show ?thesis using C8_dominant_colors [OF l p] l p by blast
qed

section \<open>The colours of an error screen\<close>

text \<open>
  Every channel of a colour key is one of the nine multiples of 32 from 0 to 256, so no key
  contains \<open>rgb(255,\<close>: the classifier finds its two error colours in no analysed image.
\<close>

lemma Math_round_channel:
  "Math_round (rat_of_nat n / 32) = int ((n + 16) div 32)"
proof -
  have "rat_of_nat n / 32 + 1 / 2 = rat_of_nat (n + 16) / rat_of_nat 32" by simp
  then show ?thesis
    unfolding Math_round_def by (simp only: floor_divide_of_nat_eq)
qed

lemma quantized_values:
  "Math_round (rat_of_nat (unat (c :: 8 word)) / 32) * 32 \<in> {0, 32, 64, 96, 128, 160, 192, 224, 256}"
proof -
  have "unat c < 256" using unsigned_less [of c, where 'a = nat] by simp
  then have "(unat c + 16) div 32 \<le> 8" by simp
  then have "(unat c + 16) div 32 \<in> {0, 1, 2, 3, 4, 5, 6, 7, 8}" by auto
  then show ?thesis unfolding Math_round_channel by auto
qed

lemma toString_quantized:
  "toString 0 = ''0''" "toString 32 = ''32''" "toString 64 = ''64''" "toString 96 = ''96''"
  "toString 128 = ''128''" "toString 160 = ''160''" "toString 192 = ''192''"
  "toString 224 = ''224''" "toString 256 = ''256''"
  by code_simp+

lemma quantized_strings:
  "toString (Math_round (rat_of_nat (unat (c :: 8 word)) / 32) * 32) \<in>
     {''0'', ''32'', ''64'', ''96'', ''128'', ''160'', ''192'', ''224'', ''256''}"
  using quantized_values [of c] by (auto simp: toString_quantized)

lemma no_r_not_included: "CHR ''r'' \<notin> set s \<Longrightarrow> \<not> str_includes s (CHR ''r'' # t)"
  by (induction s) auto

lemma quantizedColor_not_errorColor: "\<not> errorColor (quantizedColor r g b)"
proof -
  let ?q = "\<lambda>c :: 8 word. toString (Math_round (rat_of_nat (unat c) / 32) * 32)"
  let ?rest = "?q r @ '','' @ ?q g @ '','' @ ?q b @ '')''"
  have nr: "CHR ''r'' \<notin> set (?q c)" for c using quantized_strings [of c] by auto
  have rest: "CHR ''r'' \<notin> set ?rest" using nr by simp
  have key: "quantizedColor r g b = ''rgb('' @ ?rest" by (simp add: quantizedColor_def)
  have tail: "\<not> str_includes ?rest (CHR ''r'' # t)" for t using rest by (rule no_r_not_included)
  have red: "\<not> startsWith ?rest ''255,0,0)''"
    using quantized_strings [of r] by auto
  have pink: "\<not> startsWith ?rest ''255,192,192)''"
    using quantized_strings [of r] by auto
  have "\<not> str_includes (''rgb('' @ ?rest) ''rgb(255,0,0)''"
    using red nr by (simp add: no_r_not_included)
  moreover have "\<not> str_includes (''rgb('' @ ?rest) ''rgb(255,192,192)''"
    using pink nr by (simp add: no_r_not_included)
  ultimately show ?thesis unfolding errorColor_def key by blast
qed

lemma increment_keys:
  "map fst (increment k acc) =
     (if k \<in> set (map fst acc) then map fst acc else map fst acc @ [k])"
proof (induction acc)
  case Nil
  then show ?case by simp
next
  case (Cons p acc)
  obtain k' n where p: "p = (k', n)" by (cases p) auto
  show ?case using Cons.IH by (cases "k = k'") (simp_all add: p)
qed

lemma fold_increment_keys:
  "set (map fst (fold increment ks acc)) = set ks \<union> set (map fst acc)"
proof (induction ks arbitrary: acc)
  case Nil
  then show ?case by simp
next
  case (Cons k ks)
  have "set (map fst (increment k acc)) = insert k (set (map fst acc))"
    unfolding increment_keys by auto
  then show ?case using Cons.IH [of "increment k acc"] by auto
qed

lemma dominantColors_are_keys:
  "set (map fst (take 3 (sortEntries (colorCounts (countPixels ps initialScan))))) \<subseteq>
     (\<lambda>(r, g, b). quantizedColor r g b) ` set ps"
proof -
  have "set (take 3 (sortEntries (colorCounts (countPixels ps initialScan)))) \<subseteq>
      set (colorCounts (countPixels ps initialScan))"
    using set_take_subset [of 3 "sortEntries (colorCounts (countPixels ps initialScan))"]
    by (simp add: sortEntries_def)
  then have "set (map fst (take 3 (sortEntries (colorCounts (countPixels ps initialScan))))) \<subseteq>
      set (map fst (colorCounts (countPixels ps initialScan)))" by auto
  also have "\<dots> = (\<lambda>(r, g, b). quantizedColor r g b) ` set ps"
    unfolding colorCounts_countPixels fold_increment_keys by (simp add: initialScan_def)
  finally show ?thesis .
qed

lemma analyzed_image_never_error_screen:
  assumes "length data = 4 * n" and "0 < total_pixels"
  shows "\<exists>ca. analyzeColors data total_pixels = Some ca \<and>
           (\<forall>e p. \<not> isErrorScreen (analyzeContent ca e p))"
proof -
  let ?ps = "opaquePixels data"
  obtain ca where ca: "analyzeColors data total_pixels = Some ca"
    and d: "dominantColors ca =
      map fst (take 3 (sortEntries (colorCounts (countPixels ?ps initialScan))))"
    using analyzeColors_wellformed [OF assms] by simp
  have "\<not> errorColor c" if "c \<in> set (dominantColors ca)" for c
  proof -
    from that dominantColors_are_keys [of ?ps]
    obtain r g b where "c = quantizedColor r g b" unfolding d by auto
    then show ?thesis by (simp add: quantizedColor_not_errorColor)
  qed
  then have "\<not> list_ex errorColor (dominantColors ca)" by (simp add: list_ex_iff)
  then have "\<forall>e p. \<not> isErrorScreen (analyzeContent ca e p)"
    unfolding isErrorScreen_analyzeContent by blast
  with ca show ?thesis by blast
qed

text \<open>
  Claim C1. The classifier reports an error screen when the image is mostly light, hardly
  dark, and one of its dominant colours is the key of pure red or of light pink. The keys
  of the colour analyzer are multiples of 32, so pure red has the key \<open>rgb(256,0,0)\<close>;
  the classifier looks for \<open>rgb(255,0,0)\<close>. On the image of two white pixels and one red
  pixel the key of red is dominant, the ratios are within the thresholds, and no error
  screen is reported. (By \<open>analyzed_image_never_error_screen\<close> above, none is reported
  for any image.)
\<close>

theorem C1_red_key_is_not_an_error_color:
  "analyzeColors [255,255,255,255, 255,255,255,255, 255,0,0,255] 3 =
     Some \<lparr>dominantColors = [''rgb(256,256,256)'', ''rgb(256,0,0)''],
           darkRatio = 0, lightRatio = 2 / 3, brightness = 7 / 9\<rparr> \<and>
   quantizedColor 255 0 0 = ''rgb(256,0,0)'' \<and>
   \<not> isErrorScreen (analyzeContent
         \<lparr>dominantColors = [''rgb(256,256,256)'', ''rgb(256,0,0)''],
          darkRatio = 0, lightRatio = 2 / 3, brightness = 7 / 9\<rparr> e p)"
proof -
  have a: "analyzeColors [255,255,255,255, 255,255,255,255, 255,0,0,255] 3 =
     Some \<lparr>dominantColors = [''rgb(256,256,256)'', ''rgb(256,0,0)''],
           darkRatio = 0, lightRatio = 2 / 3, brightness = 7 / 9\<rparr>"
    by code_simp
  have b: "quantizedColor 255 0 0 = ''rgb(256,0,0)''"
    by code_simp
  show ?thesis
    unfolding isErrorScreen_analyzeContent using a b by (simp add: errorColor_def)
qed

section \<open>Properties of the pipeline orchestrator\<close>

lemma unsupported_message:
  "unsupportedFormatMessage = ''Unsupported image format. Supported formats: jpeg, png, webp, gif''"
  by (simp add: unsupportedFormatMessage_def SUPPORTED_FORMATS_def element1_def)

lemma size_message: "sizeExceededMessage = ''Image size exceeds maximum limit of 10MB''"
proof -
  have "int (MAX_IMAGE_SIZE div (1024 * 1024)) = 10" by (simp add: MAX_IMAGE_SIZE_def)
  moreover have "toString 10 = ''10''" by code_simp
  ultimately show ?thesis by (simp add: sizeExceededMessage_def)
qed

lemma analyzeImageLocally_throws_Error:
  "analyzeImageLocally env d = Inl e \<Longrightarrow> \<exists>m. e = Error m"
  by (auto simp: analyzeImageLocally_def split: load_result.splits sum.splits)

lemma try_None: "processImage_try None env = ([], Inl (Error ''No image provided''))"
  by (simp add: processImage_try_def)

lemma try_unsupported:
  "file_type f \<notin> set SUPPORTED_FORMATS \<Longrightarrow>
   processImage_try (Some f) env = ([], Inl (Error unsupportedFormatMessage))"
  by (simp add: processImage_try_def)

lemma try_too_large:
  "file_type f \<in> set SUPPORTED_FORMATS \<Longrightarrow> file_size f > MAX_IMAGE_SIZE \<Longrightarrow>
   processImage_try (Some f) env = ([], Inl (Error sizeExceededMessage))"
  by (simp add: processImage_try_def)

lemma try_read:
  "file_type f \<in> set SUPPORTED_FORMATS \<Longrightarrow> \<not> file_size f > MAX_IMAGE_SIZE \<Longrightarrow>
   processImage_try (Some f) env =
     (case readAsDataURL env f of
        ReaderError \<Rightarrow> ([ReadFile], Inl (Error ''Error reading image file''))
      | ResultOther \<Rightarrow> ([ReadFile], Inl (Error ''Failed to read image file''))
      | ResultString base64Image \<Rightarrow>
          ([ReadFile, DecodeImage], analyzeImageLocally env base64Image))"
  by (simp add: processImage_try_def)

lemma try_throws_Error:
  assumes "snd (processImage_try imageFile env) = Inl e"
  shows "\<exists>m. e = Error m"
proof (cases imageFile)
  case None
  have "e = Error ''No image provided''"
    using assms [symmetric] unfolding None try_None by simp
  then show ?thesis by (rule exI)
next
  case (Some f)
  consider (fmt) "file_type f \<notin> set SUPPORTED_FORMATS"
    | (big) "file_type f \<in> set SUPPORTED_FORMATS" "file_size f > MAX_IMAGE_SIZE"
    | (ok) "file_type f \<in> set SUPPORTED_FORMATS" "\<not> file_size f > MAX_IMAGE_SIZE"
    by blast
  then show ?thesis
  proof cases
    case fmt
    have "e = Error unsupportedFormatMessage"
      using assms [symmetric] unfolding Some try_unsupported [OF fmt] by simp
    then show ?thesis by (rule exI)
  next
    case big
    have "e = Error sizeExceededMessage"
      using assms [symmetric] unfolding Some try_too_large [OF big] by simp
    then show ?thesis by (rule exI)
  next
    case ok
    show ?thesis
    proof (cases "readAsDataURL env f")
      case (ResultString d)
      then have "analyzeImageLocally env d = Inl e"
        using assms unfolding Some try_read [OF ok] by simp
      then show ?thesis by (rule analyzeImageLocally_throws_Error)
    next
      case ResultOther
      have "e = Error ''Failed to read image file''"
        using assms [symmetric] unfolding Some try_read [OF ok] ResultOther by simp
      then show ?thesis by (rule exI)
    next
      case ReaderError
      have "e = Error ''Error reading image file''"
        using assms [symmetric] unfolding Some try_read [OF ok] ReaderError by simp
      then show ?thesis by (rule exI)
    qed
  qed
qed

lemma processImage_caught:
  "snd (processImage_try imageFile env) = Inl (Error reason) \<Longrightarrow>
   snd (processImage imageFile env) = Inr (failureText reason)"
  by (cases "processImage_try imageFile env") (simp add: processImage_def messageOf_def)

lemma processImage_eq:
  "processImage imageFile env =
     (fst (processImage_try imageFile env),
      case snd (processImage_try imageFile env) of
        Inl error \<Rightarrow> Inr (failureText (messageOf error))
      | Inr report \<Rightarrow> Inr report)"
  by (simp add: processImage_def split: prod.splits sum.splits)

lemma processImage_returns: "\<exists>out. snd (processImage imageFile env) = Inr out"
proof (cases "snd (processImage_try imageFile env)")
  case (Inl error)
  have "snd (processImage imageFile env) = Inr (failureText (messageOf error))"
    unfolding processImage_eq Inl by simp
  then show ?thesis by (rule exI)
next
  case (Inr report)
  have "snd (processImage imageFile env) = Inr report"
    unfolding processImage_eq Inr by simp
  then show ?thesis by (rule exI)
qed

lemma failureText_fields:
  "failureText reason =
     ''Image Analysis Error:'' @ [CHR 0x0A] @
     ''- Status: Unable to process image'' @ [CHR 0x0A] @
     ''- Reason: '' @ reason @ [CHR 0x0A] @
     ''- Recommendation: Please ensure the image is valid and try again'' @ [CHR 0x0A] @
     ''- Note: Continuing with text-only analysis'' @ [CHR 0x0A] @
     ''- Supported Formats: JPEG, PNG, WebP, GIF'' @ [CHR 0x0A] @
     ''- Maximum Size: 10MB''"
  by (simp add: failureText_def)

lemma processImage_accepted:
  assumes "file_type f \<in> set SUPPORTED_FORMATS" and "file_size f \<le> 10 * 1024 * 1024"
  shows "processImage (Some f) env =
     (case readAsDataURL env f of
        ReaderError \<Rightarrow> ([ReadFile], Inr (failureText ''Error reading image file''))
      | ResultOther \<Rightarrow> ([ReadFile], Inr (failureText ''Failed to read image file''))
      | ResultString d \<Rightarrow>
          ([ReadFile, DecodeImage],
           case loadImage env d of
             LoadError \<Rightarrow> Inr (failureText ''Failed to load image'')
           | Loaded (Inl e) \<Rightarrow> Inr (failureText (''Failed to analyze image: '' @ messageOf e))
           | Loaded (Inr report) \<Rightarrow> Inr report))"
proof -
  have size: "\<not> file_size f > MAX_IMAGE_SIZE" using assms(2) by (simp add: MAX_IMAGE_SIZE_def)
  show ?thesis
  proof (cases "readAsDataURL env f")
    case (ResultString d)
    show ?thesis
    proof (cases "loadImage env d")
      case LoadError
      then show ?thesis
        unfolding processImage_eq try_read [OF assms(1) size] ResultString
        by (simp add: analyzeImageLocally_def messageOf_def)
    next
      case (Loaded outcome)
      then show ?thesis
        unfolding processImage_eq try_read [OF assms(1) size] ResultString
        by (cases outcome) (simp_all add: analyzeImageLocally_def messageOf_def)
    qed
  next
    case ResultOther
    then show ?thesis
      unfolding processImage_eq try_read [OF assms(1) size] by (simp add: messageOf_def)
  next
    case ReaderError
    then show ?thesis
      unfolding processImage_eq try_read [OF assms(1) size] by (simp add: messageOf_def)
  qed
qed

text \<open>
  Claim C3. A file whose declared type is not one of the four supported formats, or whose
  declared size exceeds 10 MiB, is rejected before the file is read or decoded. Whatever
  fails (the missing file, the validation, the reading of the file, the loading of the image
  or its analysis), the orchestrator returns the failure text for that cause, whose reason is
  the message of the error and whose other fields are fixed; when nothing fails it returns
  the report. It never throws.
\<close>

theorem C3_processImage_failures:
  "processImage None env = ([], Inr (failureText ''No image provided'')) \<and>
   (file_type f \<notin> set SUPPORTED_FORMATS \<longrightarrow>
      processImage (Some f) env =
        ([], Inr (failureText ''Unsupported image format. Supported formats: jpeg, png, webp, gif''))) \<and>
   (file_type f \<in> set SUPPORTED_FORMATS \<and> file_size f > 10 * 1024 * 1024 \<longrightarrow>
      processImage (Some f) env =
        ([], Inr (failureText ''Image size exceeds maximum limit of 10MB''))) \<and>
   (file_type f \<in> set SUPPORTED_FORMATS \<and> file_size f \<le> 10 * 1024 * 1024 \<and>
    readAsDataURL env f = ReaderError \<longrightarrow>
      processImage (Some f) env = ([ReadFile], Inr (failureText ''Error reading image file''))) \<and>
   (file_type f \<in> set SUPPORTED_FORMATS \<and> file_size f \<le> 10 * 1024 * 1024 \<and>
    readAsDataURL env f = ResultOther \<longrightarrow>
      processImage (Some f) env = ([ReadFile], Inr (failureText ''Failed to read image file''))) \<and>
   (file_type f \<in> set SUPPORTED_FORMATS \<and> file_size f \<le> 10 * 1024 * 1024 \<and>
    readAsDataURL env f = ResultString d \<and> loadImage env d = LoadError \<longrightarrow>
      processImage (Some f) env =
        ([ReadFile, DecodeImage], Inr (failureText ''Failed to load image''))) \<and>
   (file_type f \<in> set SUPPORTED_FORMATS \<and> file_size f \<le> 10 * 1024 * 1024 \<and>
    readAsDataURL env f = ResultString d \<and> loadImage env d = Loaded (Inl (Error m)) \<longrightarrow>
      processImage (Some f) env =
        ([ReadFile, DecodeImage], Inr (failureText (''Failed to analyze image: '' @ m)))) \<and>
   (file_type f \<in> set SUPPORTED_FORMATS \<and> file_size f \<le> 10 * 1024 * 1024 \<and>
    readAsDataURL env f = ResultString d \<and> loadImage env d = Loaded (Inl Other) \<longrightarrow>
      processImage (Some f) env =
        ([ReadFile, DecodeImage],
         Inr (failureText ''Failed to analyze image: Unknown error''))) \<and>
   (file_type f \<in> set SUPPORTED_FORMATS \<and> file_size f \<le> 10 * 1024 * 1024 \<and>
    readAsDataURL env f = ResultString d \<and> loadImage env d = Loaded (Inr report) \<longrightarrow>
      processImage (Some f) env = ([ReadFile, DecodeImage], Inr report)) \<and>
   (\<exists>out. snd (processImage imageFile env) = Inr out) \<and>
   (\<forall>e. snd (processImage_try imageFile env) = Inl e \<longrightarrow>
      (\<exists>reason. e = Error reason \<and> snd (processImage imageFile env) = Inr (failureText reason))) \<and>
   failureText reason =
     ''Image Analysis Error:'' @ [CHR 0x0A] @
     ''- Status: Unable to process image'' @ [CHR 0x0A] @
     ''- Reason: '' @ reason @ [CHR 0x0A] @
     ''- Recommendation: Please ensure the image is valid and try again'' @ [CHR 0x0A] @
     ''- Note: Continuing with text-only analysis'' @ [CHR 0x0A] @
     ''- Supported Formats: JPEG, PNG, WebP, GIF'' @ [CHR 0x0A] @
     ''- Maximum Size: 10MB''"
proof (intro conjI impI allI)
  show "processImage None env = ([], Inr (failureText ''No image provided''))"
    unfolding processImage_eq try_None by (simp add: messageOf_def)
next
  assume fmt: "file_type f \<notin> set SUPPORTED_FORMATS"
  show "processImage (Some f) env =
      ([], Inr (failureText ''Unsupported image format. Supported formats: jpeg, png, webp, gif''))"
    unfolding processImage_eq try_unsupported [OF fmt] unsupported_message
    by (simp add: messageOf_def)
next
  assume "file_type f \<in> set SUPPORTED_FORMATS \<and> file_size f > 10 * 1024 * 1024"
  then have fmt: "file_type f \<in> set SUPPORTED_FORMATS" and big: "file_size f > MAX_IMAGE_SIZE"
    by (simp_all add: MAX_IMAGE_SIZE_def)
  show "processImage (Some f) env =
      ([], Inr (failureText ''Image size exceeds maximum limit of 10MB''))"
    unfolding processImage_eq try_too_large [OF fmt big] size_message
    by (simp add: messageOf_def)
next
  assume "file_type f \<in> set SUPPORTED_FORMATS \<and> file_size f \<le> 10 * 1024 * 1024 \<and>
    readAsDataURL env f = ReaderError"
  then show "processImage (Some f) env = ([ReadFile], Inr (failureText ''Error reading image file''))"
    by (simp add: processImage_accepted)
next
  assume "file_type f \<in> set SUPPORTED_FORMATS \<and> file_size f \<le> 10 * 1024 * 1024 \<and>
    readAsDataURL env f = ResultOther"
  then show "processImage (Some f) env = ([ReadFile], Inr (failureText ''Failed to read image file''))"
    by (simp add: processImage_accepted)
next
  assume "file_type f \<in> set SUPPORTED_FORMATS \<and> file_size f \<le> 10 * 1024 * 1024 \<and>
    readAsDataURL env f = ResultString d \<and> loadImage env d = LoadError"
  then show "processImage (Some f) env =
      ([ReadFile, DecodeImage], Inr (failureText ''Failed to load image''))"
    by (simp add: processImage_accepted)
next
  assume "file_type f \<in> set SUPPORTED_FORMATS \<and> file_size f \<le> 10 * 1024 * 1024 \<and>
    readAsDataURL env f = ResultString d \<and> loadImage env d = Loaded (Inl (Error m))"
  then show "processImage (Some f) env =
      ([ReadFile, DecodeImage], Inr (failureText (''Failed to analyze image: '' @ m)))"
    by (simp add: processImage_accepted messageOf_def)
next
  assume "file_type f \<in> set SUPPORTED_FORMATS \<and> file_size f \<le> 10 * 1024 * 1024 \<and>
    readAsDataURL env f = ResultString d \<and> loadImage env d = Loaded (Inl Other)"
  then show "processImage (Some f) env =
      ([ReadFile, DecodeImage], Inr (failureText ''Failed to analyze image: Unknown error''))"
    by (simp add: processImage_accepted messageOf_def)
next
  assume "file_type f \<in> set SUPPORTED_FORMATS \<and> file_size f \<le> 10 * 1024 * 1024 \<and>
    readAsDataURL env f = ResultString d \<and> loadImage env d = Loaded (Inr report)"
  then show "processImage (Some f) env = ([ReadFile, DecodeImage], Inr report)"
    by (simp add: processImage_accepted)
next
  show "\<exists>out. snd (processImage imageFile env) = Inr out" by (rule processImage_returns)
next
  fix e
  assume thrown: "snd (processImage_try imageFile env) = Inl e"
  then obtain reason where e: "e = Error reason" using try_throws_Error by blast
  have "snd (processImage imageFile env) = Inr (failureText reason)"
    using thrown unfolding e by (rule processImage_caught)
  with e show "\<exists>reason. e = Error reason \<and> snd (processImage imageFile env) = Inr (failureText reason)"
    by blast
next
  show "failureText reason =
     ''Image Analysis Error:'' @ [CHR 0x0A] @
     ''- Status: Unable to process image'' @ [CHR 0x0A] @
     ''- Reason: '' @ reason @ [CHR 0x0A] @
     ''- Recommendation: Please ensure the image is valid and try again'' @ [CHR 0x0A] @
     ''- Note: Continuing with text-only analysis'' @ [CHR 0x0A] @
     ''- Supported Formats: JPEG, PNG, WebP, GIF'' @ [CHR 0x0A] @
     ''- Maximum Size: 10MB''"
    by (rule failureText_fields)
qed

theorem C3_processImage_failures_witness:
  "processImage (Some bmpFile) failingBrowser =
     ([], Inr (failureText ''Unsupported image format. Supported formats: jpeg, png, webp, gif'')) \<and>
   processImage (Some largeFile) failingBrowser =
     ([], Inr (failureText ''Image size exceeds maximum limit of 10MB'')) \<and>
   processImage (Some pngFile) failingBrowser =
     ([ReadFile], Inr (failureText ''Error reading image file'')) \<and>
   processImage (Some pngFile) (readingBrowser None LoadError) =
     ([ReadFile], Inr (failureText ''Failed to read image file'')) \<and>
   processImage (Some pngFile) (readingBrowser (Some ''data:image/png;base64,'') LoadError) =
     ([ReadFile, DecodeImage], Inr (failureText ''Failed to load image'')) \<and>
   processImage (Some pngFile)
       (readingBrowser (Some ''data:image/png;base64,'')
          (Loaded (Inl (Error ''Failed to get canvas context'')))) =
     ([ReadFile, DecodeImage],
      Inr (failureText ''Failed to analyze image: Failed to get canvas context'')) \<and>
   processImage (Some pngFile)
       (readingBrowser (Some ''data:image/png;base64,'') (Loaded (Inl Other))) =
     ([ReadFile, DecodeImage], Inr (failureText ''Failed to analyze image: Unknown error'')) \<and>
   processImage (Some pngFile)
       (readingBrowser (Some ''data:image/png;base64,'') (Loaded (Inr ''Image Content Analysis:''))) =
     ([ReadFile, DecodeImage], Inr ''Image Content Analysis:'') \<and>
   snd (processImage_try None failingBrowser) = Inl (Error ''No image provided'') \<and>
   snd (processImage None failingBrowser) = Inr (failureText ''No image provided'')"
proof -
  note png = pngFile_def SUPPORTED_FORMATS_def readingBrowser_def failingBrowser_def
  have h2: "file_type bmpFile \<notin> set SUPPORTED_FORMATS"
    by (simp add: bmpFile_def SUPPORTED_FORMATS_def)
  have h3: "file_type largeFile \<in> set SUPPORTED_FORMATS \<and> file_size largeFile > 10 * 1024 * 1024"
    by (simp add: largeFile_def SUPPORTED_FORMATS_def)
  have h4: "file_type pngFile \<in> set SUPPORTED_FORMATS \<and> file_size pngFile \<le> 10 * 1024 * 1024 \<and>
      readAsDataURL failingBrowser pngFile = ReaderError"
    by (simp add: png)
  have h5: "file_type pngFile \<in> set SUPPORTED_FORMATS \<and> file_size pngFile \<le> 10 * 1024 * 1024 \<and>
      readAsDataURL (readingBrowser None LoadError) pngFile = ResultOther"
    by (simp add: png)
  have h: "file_type pngFile \<in> set SUPPORTED_FORMATS \<and> file_size pngFile \<le> 10 * 1024 * 1024 \<and>
      readAsDataURL (readingBrowser (Some ''data:image/png;base64,'') outcome) pngFile = ResultString ''data:image/png;base64,'' \<and>
      loadImage (readingBrowser (Some ''data:image/png;base64,'') outcome) ''data:image/png;base64,'' = outcome" for outcome
    by (simp add: png)
  have w1: "processImage None failingBrowser = ([], Inr (failureText ''No image provided''))"
    by (rule C3_processImage_failures [where env = failingBrowser, THEN conjunct1])
  have w2: "processImage (Some bmpFile) failingBrowser =
     ([], Inr (failureText ''Unsupported image format. Supported formats: jpeg, png, webp, gif''))"
    by (rule C3_processImage_failures
      [where env = failingBrowser and f = bmpFile, THEN conjunct2, THEN conjunct1, THEN mp, OF h2])
  have w3: "processImage (Some largeFile) failingBrowser =
     ([], Inr (failureText ''Image size exceeds maximum limit of 10MB''))"
    by (rule C3_processImage_failures
      [where env = failingBrowser and f = largeFile, THEN conjunct2, THEN conjunct2, THEN conjunct1, THEN mp, OF h3])
  have w4: "processImage (Some pngFile) failingBrowser =
     ([ReadFile], Inr (failureText ''Error reading image file''))"
    by (rule C3_processImage_failures
      [where env = failingBrowser and f = pngFile, THEN conjunct2, THEN conjunct2, THEN conjunct2, THEN conjunct1, THEN mp, OF h4])
  have w5: "processImage (Some pngFile) (readingBrowser None LoadError) =
     ([ReadFile], Inr (failureText ''Failed to read image file''))"
    by (rule C3_processImage_failures
      [where env = "readingBrowser None LoadError" and f = pngFile, THEN conjunct2, THEN conjunct2, THEN conjunct2, THEN conjunct2, THEN conjunct1, THEN mp, OF h5])
  have w6: "processImage (Some pngFile) (readingBrowser (Some ''data:image/png;base64,'') LoadError) =
     ([ReadFile, DecodeImage], Inr (failureText ''Failed to load image''))"
    by (rule C3_processImage_failures
      [where env = "readingBrowser (Some ''data:image/png;base64,'') LoadError" and f = pngFile and d = "''data:image/png;base64,''",
        THEN conjunct2, THEN conjunct2, THEN conjunct2, THEN conjunct2, THEN conjunct2, THEN conjunct1, THEN mp, OF h])
  have w7: "processImage (Some pngFile)
       (readingBrowser (Some ''data:image/png;base64,'') (Loaded (Inl (Error ''Failed to get canvas context'')))) =
     ([ReadFile, DecodeImage],
      Inr (failureText (''Failed to analyze image: '' @ ''Failed to get canvas context'')))"
    by (rule C3_processImage_failures
      [where env = "readingBrowser (Some ''data:image/png;base64,'') (Loaded (Inl (Error ''Failed to get canvas context'')))"
        and f = pngFile and d = "''data:image/png;base64,''" and m = "''Failed to get canvas context''",
        THEN conjunct2, THEN conjunct2, THEN conjunct2, THEN conjunct2, THEN conjunct2, THEN conjunct2, THEN conjunct1, THEN mp, OF h])
  have w8: "processImage (Some pngFile) (readingBrowser (Some ''data:image/png;base64,'') (Loaded (Inl Other))) =
     ([ReadFile, DecodeImage], Inr (failureText ''Failed to analyze image: Unknown error''))"
    by (rule C3_processImage_failures
      [where env = "readingBrowser (Some ''data:image/png;base64,'') (Loaded (Inl Other))" and f = pngFile and d = "''data:image/png;base64,''",
        THEN conjunct2, THEN conjunct2, THEN conjunct2, THEN conjunct2, THEN conjunct2, THEN conjunct2, THEN conjunct2, THEN conjunct1, THEN mp, OF h])
  have w9: "processImage (Some pngFile)
       (readingBrowser (Some ''data:image/png;base64,'') (Loaded (Inr ''Image Content Analysis:''))) =
     ([ReadFile, DecodeImage], Inr ''Image Content Analysis:'')"
    by (rule C3_processImage_failures
      [where env = "readingBrowser (Some ''data:image/png;base64,'') (Loaded (Inr ''Image Content Analysis:''))"
        and f = pngFile and d = "''data:image/png;base64,''" and report = "''Image Content Analysis:''",
        THEN conjunct2, THEN conjunct2, THEN conjunct2, THEN conjunct2, THEN conjunct2, THEN conjunct2, THEN conjunct2, THEN conjunct2, THEN conjunct1, THEN mp, OF h])
  have w10: "snd (processImage_try None failingBrowser) = Inl (Error ''No image provided'')"
    by (simp add: try_None)
  have w11: "snd (processImage None failingBrowser) = Inr (failureText ''No image provided'')"
    unfolding w1 by simp
  from w2 w3 w4 w5 w6 show ?thesis
    using w7 w8 w9 w10 w11 by simp
qed

end
